theory Spec2Isabelle
  imports Complex_Main
begin

section \<open>The training driver \<^verbatim>\<open>src/dev/train.py\<close>\<close>

text \<open>
  The script is a straight-line driver: it checks the output directory, copies the
  configuration, builds the external components, writes a CSV log and runs the epoch
  loop with a checkpoint on every improvement of the validation loss. The model below
  follows it statement by statement. Every exception is a value of \<open>error\<close>, the
  file system is a map from paths to nodes, and the components imported from other
  modules (\<^verbatim>\<open>PointCloudDataset\<close>, \<^verbatim>\<open>Regressor\<close>, \<^verbatim>\<open>train_one_epoch\<close>, ...) are fields of
  an environment record acting on an abstract state \<open>'s\<close>.
\<close>

subsection \<open>Exceptions\<close>

datatype error =
    FileExistsError
  | FileNotFoundError
  | IsADirectoryError
  | NotADirectoryError
  | SameFileError
  | TOMLDecodeError
  | KeyError
  | TypeError
  | OSError string
  | ExternalError string

subsection \<open>Python floats and their comparison\<close>

text \<open>
  The losses are Python floats. Only \<^verbatim>\<open><\<close> is applied to them, so a float is a finite
  value, one of the two infinities, or NaN. \<^verbatim>\<open>x < y\<close> is false as soon as one side is NaN.
\<close>

datatype pyfloat = Finite real | PosInf | NegInf | NaN

fun float_lt :: "pyfloat \<Rightarrow> pyfloat \<Rightarrow> bool" where
  "float_lt (Finite x) (Finite y) = (x < y)"
| "float_lt (Finite x) PosInf = True"
| "float_lt NegInf (Finite y) = True"
| "float_lt NegInf PosInf = True"
| "float_lt _ _ = False"

fun isnan :: "pyfloat \<Rightarrow> bool" where
  "isnan NaN = True"
| "isnan _ = False"

text \<open>\<^verbatim>\<open>x <= y\<close> on floats, used to state minimality.\<close>

definition float_le :: "pyfloat \<Rightarrow> pyfloat \<Rightarrow> bool" where
  "float_le x y = (\<not> isnan x \<and> \<not> isnan y \<and> (float_lt x y \<or> x = y))"

subsection \<open>The file system\<close>

text \<open>
  A path is its list of components, read from the working directory; the empty path is
  the working directory itself. A node is a directory or a regular file with its bytes.
  Two paths name the same file exactly when they are equal: links and \<^verbatim>\<open>..\<close> are not
  nodes of the map. What the system refuses to create for such reasons is a parameter
  of \<open>mkdir\<close> below.
\<close>

type_synonym path = "string list"

datatype node = Dir | File string

type_synonym filesys = "path \<Rightarrow> node option"

definition path_exists :: "filesys \<Rightarrow> path \<Rightarrow> bool" where
  "path_exists fs p = (p = [] \<or> fs p \<noteq> None)"

definition is_dir :: "filesys \<Rightarrow> path \<Rightarrow> bool" where
  "is_dir fs p = (p = [] \<or> fs p = Some Dir)"

text \<open>The proper ancestors of a path, nearest to the root first.\<close>

definition ancestors :: "path \<Rightarrow> path list" where
  "ancestors p = map (\<lambda>k. take k p) [0..<length p]"

fun is_file_node :: "node option \<Rightarrow> bool" where
  "is_file_node (Some (File c)) = True"
| "is_file_node _ = False"

text \<open>A path is blocked when one of its proper ancestors is a regular file.\<close>

definition blocked :: "filesys \<Rightarrow> path \<Rightarrow> bool" where
  "blocked fs p = list_ex (\<lambda>q. is_file_node (fs q)) (ancestors p)"

text \<open>
  \<^verbatim>\<open>os.mkdir\<close> can fail for reasons the map of nodes does not show: a name too long, a
  missing permission, a dangling link at the path (which \<^verbatim>\<open>exists()\<close> reports absent and
  \<^verbatim>\<open>os.mkdir\<close> refuses with \<^verbatim>\<open>FileExistsError\<close>). These are a parameter: the exception, if
  any, with which the system refuses to create a directory at a path.
\<close>

type_synonym os_fault = "path \<Rightarrow> error option"

text \<open>
  The directories of a list are created in turn, as \<^verbatim>\<open>Path.mkdir(parents=True)\<close> creates the
  missing parents from the top down. An existing directory is passed over; a refusal
  ends the creation and leaves what was created before it.
\<close>

fun make_dirs :: "os_fault \<Rightarrow> filesys \<Rightarrow> path list \<Rightarrow> error option \<times> filesys" where
  "make_dirs fault fs [] = (None, fs)"
| "make_dirs fault fs (q # qs) =
     (if is_dir fs q then make_dirs fault fs qs
      else case fault q of
        Some e \<Rightarrow> (Some e, fs)
      | None \<Rightarrow>
          if fs q \<noteq> None then (Some FileExistsError, fs)
          else make_dirs fault (fs(q \<mapsto> Dir)) qs)"

text \<open>
  \<^verbatim>\<open>Path.mkdir(parents=True, exist_ok=True)\<close>: an existing directory is left alone; an
  existing regular file raises \<^verbatim>\<open>FileExistsError\<close> in spite of \<^verbatim>\<open>exist_ok\<close>; a regular file
  among the ancestors raises \<^verbatim>\<open>NotADirectoryError\<close>; otherwise the missing ancestors and
  then the directory itself are created. The result is the exception raised, if any,
  and the files as they are left: an exception can come after some parents were created.
\<close>

definition mkdir :: "os_fault \<Rightarrow> filesys \<Rightarrow> path \<Rightarrow> error option \<times> filesys" where
  "mkdir fault fs p =
     (if is_dir fs p then (None, fs)
      else if is_file_node (fs p) then (Some FileExistsError, fs)
      else if blocked fs p then (Some NotADirectoryError, fs)
      else make_dirs fault fs (ancestors p @ [p]))"

text \<open>\<^verbatim>\<open>open(p, "rb").read()\<close>.\<close>

definition read_file :: "filesys \<Rightarrow> path \<Rightarrow> error + string" where
  "read_file fs p =
     (if is_dir fs p then Inl IsADirectoryError
      else case fs p of
        Some (File c) \<Rightarrow> Inr c
      | _ \<Rightarrow> if blocked fs p then Inl NotADirectoryError else Inl FileNotFoundError)"

text \<open>
  Opening a file for writing: the target must not be a directory and its parent must
  be one. The flag says whether the old bytes are kept (mode \<^verbatim>\<open>"a"\<close>) or dropped
  (mode \<^verbatim>\<open>"w"\<close>).
\<close>

definition open_write :: "bool \<Rightarrow> filesys \<Rightarrow> path \<Rightarrow> string \<Rightarrow> error + filesys" where
  "open_write keep fs p bytes =
     (if is_dir fs p then Inl IsADirectoryError
      else if blocked fs p then Inl NotADirectoryError
      else if \<not> is_dir fs (butlast p) then Inl FileNotFoundError
      else Inr (fs(p \<mapsto> File ((case fs p of Some (File c) \<Rightarrow> if keep then c else [] | _ \<Rightarrow> [])
                               @ bytes))))"

text \<open>\<^verbatim>\<open>shutil.copyfile(src, dst)\<close>: the source is opened first, then the target.\<close>

definition copyfile :: "filesys \<Rightarrow> path \<Rightarrow> path \<Rightarrow> error + filesys" where
  "copyfile fs src dst =
     (if src = dst then Inl SameFileError
      else case read_file fs src of
        Inl e \<Rightarrow> Inl e
      | Inr c \<Rightarrow> open_write False fs dst c)"

subsection \<open>The configuration\<close>

text \<open>
  \<^verbatim>\<open>tomllib.load\<close> returns nested dictionaries. A table keeps its keys in file order;
  \<^verbatim>\<open>v[k]\<close> raises \<^verbatim>\<open>KeyError\<close> on a table without the key and \<^verbatim>\<open>TypeError\<close> on anything that
  is not a table.
\<close>

datatype toml =
    TInt int
  | TFloat pyfloat
  | TStr string
  | TBool bool
  | TArray "toml list"
  | TTable "(string \<times> toml) list"

definition getitem :: "toml \<Rightarrow> string \<Rightarrow> error + toml" where
  "getitem v k =
     (case v of
        TTable kvs \<Rightarrow> (case map_of kvs k of None \<Rightarrow> Inl KeyError | Some x \<Rightarrow> Inr x)
      | _ \<Rightarrow> Inl TypeError)"

definition getitem2 :: "toml \<Rightarrow> string \<Rightarrow> string \<Rightarrow> error + toml" where
  "getitem2 v k1 k2 = (case getitem v k1 of Inl e \<Rightarrow> Inl e | Inr t \<Rightarrow> getitem t k2)"

text \<open>
  \<^verbatim>\<open>range(num_epochs)\<close>: the indices \<open>0, 1, ...\<close> below an integer (none when it is
  negative; a Python \<^verbatim>\<open>bool\<close> is an integer), \<^verbatim>\<open>TypeError\<close> for every other value.
\<close>

definition int_value :: "toml \<Rightarrow> int option" where
  "int_value v =
     (case v of
        TInt n \<Rightarrow> Some n
      | TBool b \<Rightarrow> Some (if b then 1 else 0)
      | _ \<Rightarrow> None)"

definition range_py :: "toml \<Rightarrow> error + nat list" where
  "range_py v = (case int_value v of None \<Rightarrow> Inl TypeError | Some n \<Rightarrow> Inr [0..<nat n])"

subsection \<open>Arguments, external components, observable state\<close>

record args =
  train_data :: string
  val_data :: string
  config :: path
  output_dir :: "path option"
  force :: bool

text \<open>The calls into the imported modules made before the epoch loop, with their arguments.\<close>

datatype split = TrainSplit | ValidationSplit

datatype extcall =
    PointCloudDataset string toml
  | Regressor toml
  | CustomLoss toml
  | Build_optimizer toml
  | Model_to_device
  | DataLoader split toml bool

datatype cell = CStr string | CInt int | CFloat pyfloat

text \<open>
  The environment holds what the script takes from outside: the clock, the refusals of
  the operating system to create a directory, the TOML parser,
  the imported components (each may raise, and acts on the state \<open>'s\<close> of the model,
  optimizer and loaders, not on the files), the bytes \<^verbatim>\<open>torch.jit.script(model).save\<close>
  writes for a state, and the bytes \<^verbatim>\<open>csv.writer.writerow\<close> writes for a row.
\<close>

record 's env =
  now :: string
  os_fault :: os_fault
  tomllib_loads :: "string \<Rightarrow> toml option"
  construct :: "extcall \<Rightarrow> 's \<Rightarrow> error + 's"
  train_one_epoch :: "'s \<Rightarrow> error + pyfloat \<times> 's"
  test_one_epoch :: "'s \<Rightarrow> error + pyfloat \<times> 's"
  jit_script :: "'s \<Rightarrow> error + string"
  writerow :: "cell list \<Rightarrow> string"

text \<open>
  What the script did, in order: a file operation is recorded when it has succeeded
  (a row of the log with its cells, a checkpoint with the epoch and the state that was
  scripted), a call into an imported module when it is made, a loss when the call has
  returned it.
\<close>

datatype 's event =
    MkdirDone path
  | CopyDone path path
  | Called extcall
  | HeaderWritten path
  | Trained nat pyfloat
  | Tested nat pyfloat
  | RowWritten "cell list"
  | Saved nat 's

record 's world =
  fs :: filesys
  st :: 's
  trace :: "'s event list"

subsection \<open>The script\<close>

text \<open>
  Sequencing of statements: each statement maps the state to a value or an exception
  and the state reached; an exception ends the run there.
\<close>

type_synonym ('s, 'a) stmt = "'s world \<Rightarrow> (error + 'a) \<times> 's world"

definition bindE :: "('s, 'a) stmt \<Rightarrow> ('a \<Rightarrow> ('s, 'b) stmt) \<Rightarrow> ('s, 'b) stmt" where
  "bindE m f w = (case m w of (Inl e, w') \<Rightarrow> (Inl e, w') | (Inr x, w') \<Rightarrow> f x w')"

text \<open>An expression without effect: its value, or the exception it raises.\<close>

definition lift :: "error + 'a \<Rightarrow> ('s, 'a) stmt" where
  "lift r w = (r, w)"

definition call :: "'s env \<Rightarrow> extcall \<Rightarrow> ('s, unit) stmt" where
  "call E c w =
     (let w' = w\<lparr>trace := trace w @ [Called c]\<rparr> in
      case construct E c (st w) of
        Inl e \<Rightarrow> (Inl e, w')
      | Inr s \<Rightarrow> (Inr (), w'\<lparr>st := s\<rparr>))"

text \<open>Line 40: \<^verbatim>\<open>config = tomllib.load(open(args.config, "rb"))\<close>.\<close>

definition load_config :: "'s env \<Rightarrow> args \<Rightarrow> ('s, toml) stmt" where
  "load_config E a w =
     (case read_file (fs w) (config a) of
        Inl e \<Rightarrow> (Inl e, w)
      | Inr bytes \<Rightarrow>
          (case tomllib_loads E bytes of
             None \<Rightarrow> (Inl TOMLDecodeError, w)
           | Some cfg \<Rightarrow> (Inr cfg, w)))"

text \<open>Line 41: \<^verbatim>\<open>shutil.copyfile(args.config, args.output_dir / "config.toml")\<close>.\<close>

definition copy_config :: "args \<Rightarrow> path \<Rightarrow> ('s, unit) stmt" where
  "copy_config a out w =
     (case copyfile (fs w) (config a) (out @ [''config.toml'']) of
        Inl e \<Rightarrow> (Inl e, w)
      | Inr fs' \<Rightarrow>
          (Inr (), w\<lparr>fs := fs', trace := trace w @ [CopyDone (config a) (out @ [''config.toml''])]\<rparr>))"

text \<open>
  Lines 43 to 56: the values read from the configuration and the components built from
  them, in the order of the source. The result is \<^verbatim>\<open>num_epochs\<close>.
\<close>

definition build :: "'s env \<Rightarrow> args \<Rightarrow> toml \<Rightarrow> ('s, toml) stmt" where
  "build E a cfg =
     bindE (lift (getitem2 cfg ''training'' ''batch_size'')) (\<lambda>batch_size.
     bindE (lift (getitem2 cfg ''training'' ''num_epochs'')) (\<lambda>num_epochs.
     bindE (lift (getitem cfg ''data'')) (\<lambda>d.
     bindE (call E (PointCloudDataset (train_data a) d)) (\<lambda>_.
     bindE (lift (getitem cfg ''data'')) (\<lambda>d.
     bindE (call E (PointCloudDataset (val_data a) d)) (\<lambda>_.
     bindE (lift (getitem cfg ''model'')) (\<lambda>m.
     bindE (call E (Regressor m)) (\<lambda>_.
     bindE (lift (getitem2 cfg ''training'' ''loss'')) (\<lambda>l.
     bindE (call E (CustomLoss l)) (\<lambda>_.
     bindE (lift (getitem2 cfg ''training'' ''optimizer'')) (\<lambda>opt.
     bindE (call E (Build_optimizer opt)) (\<lambda>_.
     bindE (call E Model_to_device) (\<lambda>_.
     bindE (call E (DataLoader TrainSplit batch_size True)) (\<lambda>_.
     bindE (call E (DataLoader ValidationSplit batch_size False)) (\<lambda>_.
     lift (Inr num_epochs))))))))))))))))"

text \<open>Lines 40 to 56 together.\<close>

definition configure :: "'s env \<Rightarrow> args \<Rightarrow> path \<Rightarrow> ('s, toml) stmt" where
  "configure E a out =
     bindE (load_config E a) (\<lambda>cfg.
     bindE (copy_config a out) (\<lambda>_.
     build E a cfg))"

text \<open>Lines 58 to 61: the log is opened in mode \<^verbatim>\<open>"w"\<close> and receives the header row.\<close>

definition header :: "cell list" where
  "header = [CStr ''epoch'', CStr ''training_loss'', CStr ''validation_loss'']"

definition open_log :: "'s env \<Rightarrow> path \<Rightarrow> ('s, unit) stmt" where
  "open_log E out w =
     (let training_log = out @ [''training_log.csv''] in
      case open_write False (fs w) training_log (writerow E header) of
        Inl e \<Rightarrow> (Inl e, w)
      | Inr fs' \<Rightarrow> (Inr (), w\<lparr>fs := fs', trace := trace w @ [HeaderWritten training_log]\<rparr>))"

text \<open>
  Lines 65 to 76: the body of the loop for epoch \<open>i\<close>, with the local \<^verbatim>\<open>best_loss\<close> as an
  argument. The result is the exception raised, if any, the value of \<^verbatim>\<open>best_loss\<close> and
  the state reached. The log is reopened in mode \<^verbatim>\<open>"a"\<close> for the row of the epoch.
\<close>

definition epoch ::
  "'s env \<Rightarrow> path \<Rightarrow> nat \<Rightarrow> pyfloat \<Rightarrow> 's world \<Rightarrow> error option \<times> pyfloat \<times> 's world" where
  "epoch E out i best_loss w =
     (case train_one_epoch E (st w) of
        Inl e \<Rightarrow> (Some e, best_loss, w)
      | Inr (train_loss, s1) \<Rightarrow>
          let w1 = w\<lparr>st := s1, trace := trace w @ [Trained i train_loss]\<rparr> in
          (case test_one_epoch E s1 of
             Inl e \<Rightarrow> (Some e, best_loss, w1)
           | Inr (validation_loss, s2) \<Rightarrow>
               let w2 = w1\<lparr>st := s2, trace := trace w1 @ [Tested i validation_loss]\<rparr> in
               let row = [CInt (int i), CFloat train_loss, CFloat validation_loss] in
               (case open_write True (fs w2) (out @ [''training_log.csv'']) (writerow E row) of
                  Inl e \<Rightarrow> (Some e, best_loss, w2)
                | Inr fs3 \<Rightarrow>
                    let w3 = w2\<lparr>fs := fs3, trace := trace w2 @ [RowWritten row]\<rparr> in
                    if float_lt validation_loss best_loss then
                      (case jit_script E (st w3) of
                         Inl e \<Rightarrow> (Some e, validation_loss, w3)
                       | Inr bytes \<Rightarrow>
                           (case open_write False (fs w3) (out @ [''model.pt'']) bytes of
                              Inl e \<Rightarrow> (Some e, validation_loss, w3)
                            | Inr fs4 \<Rightarrow>
                                (None, validation_loss,
                                 w3\<lparr>fs := fs4, trace := trace w3 @ [Saved i (st w3)]\<rparr>)))
                    else (None, best_loss, w3))))"

text \<open>Lines 63 to 64: the loop over the indices of \<^verbatim>\<open>range(num_epochs)\<close>; an exception ends it.\<close>

fun epoch_loop ::
  "'s env \<Rightarrow> path \<Rightarrow> nat list \<Rightarrow> pyfloat \<Rightarrow> 's world \<Rightarrow> error option \<times> pyfloat \<times> 's world" where
  "epoch_loop E out [] best_loss w = (None, best_loss, w)"
| "epoch_loop E out (i # rest) best_loss w =
     (case epoch E out i best_loss w of
        (Some e, best_loss', w') \<Rightarrow> (Some e, best_loss', w')
      | (None, best_loss', w') \<Rightarrow> epoch_loop E out rest best_loss' w')"

text \<open>
  The whole script. The default output directory is named after the clock (line 32);
  lines 34 to 38 are the existence check and the creation of the directory.
\<close>

definition out_dir :: "'s env \<Rightarrow> args \<Rightarrow> path" where
  "out_dir E a = (case output_dir a of None \<Rightarrow> [now E] | Some d \<Rightarrow> d)"

definition main :: "'s env \<Rightarrow> args \<Rightarrow> filesys \<Rightarrow> 's \<Rightarrow> error option \<times> 's world" where
  "main E a fs0 s0 =
     (let w0 = \<lparr>fs = fs0, st = s0, trace = []\<rparr>;
          out = out_dir E a in
      if path_exists fs0 out \<and> \<not> force a then (Some FileExistsError, w0)
      else
        case mkdir (os_fault E) fs0 out of
          (Some e, fs1) \<Rightarrow> (Some e, w0\<lparr>fs := fs1\<rparr>)
        | (None, fs1) \<Rightarrow>
            (case configure E a out (w0\<lparr>fs := fs1, trace := [MkdirDone out]\<rparr>) of
               (Inl e, w) \<Rightarrow> (Some e, w)
             | (Inr num_epochs, w) \<Rightarrow>
                 (case open_log E out w of
                    (Inl e, w) \<Rightarrow> (Some e, w)
                  | (Inr u, w) \<Rightarrow>
                      (case range_py num_epochs of
                         Inl e \<Rightarrow> (Some e, w)
                       | Inr epochs \<Rightarrow>
                           (case epoch_loop E out epochs PosInf w of
                              (r, best_loss, w) \<Rightarrow> (r, w))))))"

subsection \<open>Reading a run\<close>

text \<open>
  The projections of a trace the properties are stated with: the losses returned by the
  two passes, the passes in the order they ran, the rows written to the log, the
  checkpoints saved and the datasets constructed.
\<close>

fun tested_loss :: "'s event \<Rightarrow> pyfloat option" where
  "tested_loss (Tested i v) = Some v"
| "tested_loss _ = None"

fun trained_loss :: "'s event \<Rightarrow> pyfloat option" where
  "trained_loss (Trained i v) = Some v"
| "trained_loss _ = None"

definition val_losses :: "'s event list \<Rightarrow> pyfloat list" where
  "val_losses tr = List.map_filter tested_loss tr"

definition train_losses :: "'s event list \<Rightarrow> pyfloat list" where
  "train_losses tr = List.map_filter trained_loss tr"

datatype pass = TrainPass | TestPass

fun pass_of :: "'s event \<Rightarrow> (pass \<times> nat) option" where
  "pass_of (Trained i v) = Some (TrainPass, i)"
| "pass_of (Tested i v) = Some (TestPass, i)"
| "pass_of _ = None"

definition passes :: "'s event list \<Rightarrow> (pass \<times> nat) list" where
  "passes tr = List.map_filter pass_of tr"

fun row_of :: "'s event \<Rightarrow> cell list option" where
  "row_of (RowWritten r) = Some r"
| "row_of _ = None"

definition rows_written :: "'s event list \<Rightarrow> cell list list" where
  "rows_written tr = List.map_filter row_of tr"

fun checkpoint_of :: "'s event \<Rightarrow> (nat \<times> 's) option" where
  "checkpoint_of (Saved i s) = Some (i, s)"
| "checkpoint_of _ = None"

definition checkpoints :: "'s event list \<Rightarrow> (nat \<times> 's) list" where
  "checkpoints tr = List.map_filter checkpoint_of tr"

definition saved_epochs :: "'s event list \<Rightarrow> nat list" where
  "saved_epochs tr = map fst (checkpoints tr)"

fun dataset_of :: "'s event \<Rightarrow> (string \<times> toml) option" where
  "dataset_of (Called (PointCloudDataset p d)) = Some (p, d)"
| "dataset_of _ = None"

definition datasets :: "'s event list \<Rightarrow> (string \<times> toml) list" where
  "datasets tr = List.map_filter dataset_of tr"

text \<open>
  The value \<^verbatim>\<open>best_loss\<close> has after a sequence of validation losses (lines 63, 72 and 73),
  and the epochs whose loss is below the value \<^verbatim>\<open>best_loss\<close> has when they end.
\<close>

definition best_of :: "pyfloat list \<Rightarrow> pyfloat" where
  "best_of vs = fold (\<lambda>v b. if float_lt v b then v else b) vs PosInf"

definition improving :: "pyfloat list \<Rightarrow> nat list" where
  "improving vs = filter (\<lambda>i. float_lt (vs ! i) (best_of (take i vs))) [0..<length vs]"

text \<open>The least element of a list of floats, in the order of \<^verbatim>\<open><=\<close>.\<close>

definition is_minimum :: "pyfloat \<Rightarrow> pyfloat list \<Rightarrow> bool" where
  "is_minimum m xs = (m \<in> set xs \<and> list_all (float_le m) xs)"

subsection \<open>Statements that only call components\<close>

text \<open>
  A statement that leaves the files alone and records nothing but calls into the
  imported modules.
\<close>

definition calls_only :: "('s, 'a) stmt \<Rightarrow> bool" where
  "calls_only m = (\<forall>w r w'. m w = (r, w') \<longrightarrow>
     fs w' = fs w \<and> (\<exists>cs. trace w' = trace w @ map Called cs))"

subsection \<open>The claims as the specification words them\<close>

text \<open>
  Epoch \<open>i\<close> is checkpointed when its validation loss is strictly less than positive
  infinity and than every validation loss of the preceding epochs.
\<close>

definition claimed_checkpoint :: "pyfloat list \<Rightarrow> nat \<Rightarrow> bool" where
  "claimed_checkpoint vs i = (float_lt (vs ! i) PosInf \<and> (\<forall>u\<in>set (take i vs). float_lt (vs ! i) u))"

text \<open>
  After some epochs \<^verbatim>\<open>best_loss\<close> is the minimum of their validation losses, and positive
  infinity before the first epoch.
\<close>

definition claimed_best :: "pyfloat \<Rightarrow> pyfloat list \<Rightarrow> bool" where
  "claimed_best b vs = (if vs = [] then b = PosInf else is_minimum b vs)"

subsection \<open>Concrete runs\<close>

text \<open>
  A small configuration with \<open>n\<close> epochs, and components that return the training loss
  \<open>t\<close> and the validation losses \<open>vs\<close> in turn; the state counts the training passes.
\<close>

definition demo_cfg :: "int \<Rightarrow> toml" where
  "demo_cfg n = TTable
     [(''training'', TTable [(''batch_size'', TInt 4), (''num_epochs'', TInt n),
        (''loss'', TStr ''mse''), (''optimizer'', TStr ''adam'')]),
      (''data'', TTable [(''points'', TInt 8)]),
      (''model'', TTable [])]"

definition demo_env :: "int \<Rightarrow> pyfloat \<Rightarrow> pyfloat list \<Rightarrow> nat env" where
  "demo_env n t vs =
     \<lparr>now = ''2026_01_01T00-00-00'',
      os_fault = (\<lambda>p. None),
      tomllib_loads = (\<lambda>b. if b = ''cfg'' then Some (demo_cfg n) else None),
      construct = (\<lambda>c s. Inr s),
      train_one_epoch = (\<lambda>s. Inr (t, Suc s)),
      test_one_epoch = (\<lambda>s. if s \<le> length vs then Inr (vs ! (s - 1), s) else Inl (ExternalError ''no data'')),
      jit_script = (\<lambda>s. Inr (replicate s CHR ''m'')),
      writerow = (\<lambda>cs. replicate (length cs) CHR '','' @ ''|'')\<rparr>"

text \<open>The same components, with \<^verbatim>\<open>torch.jit.script\<close> raising in the state \<open>k\<close>.\<close>

definition demo_env_unsaved :: "int \<Rightarrow> pyfloat \<Rightarrow> pyfloat list \<Rightarrow> nat \<Rightarrow> nat env" where
  "demo_env_unsaved n t vs k =
     (demo_env n t vs)\<lparr>jit_script :=
        (\<lambda>s. if s = k then Inl (ExternalError ''script'') else Inr (replicate s CHR ''m''))\<rparr>"

definition demo_args :: "bool \<Rightarrow> args" where
  "demo_args f = \<lparr>train_data = ''train.parquet'', val_data = ''val.parquet'',
      config = [''cfg.toml''], output_dir = Some [''out''], force = f\<rparr>"

definition demo_fs :: filesys where
  "demo_fs = [[''cfg.toml''] \<mapsto> File ''cfg'']"

text \<open>
  Files around the run: a regular file where the output directory should be, and an
  output directory that already holds a file of its own.
\<close>

definition demo_fs_file :: filesys where
  "demo_fs_file = demo_fs([''out''] \<mapsto> File ''x'')"

definition demo_fs_dir :: filesys where
  "demo_fs_dir = demo_fs([''out''] \<mapsto> Dir, [''out'', ''notes.txt''] \<mapsto> File ''keep'')"

text \<open>The state in which the loop of a run starts, reduced to an empty output directory.\<close>

definition demo_world :: "nat world" where
  "demo_world = \<lparr>fs = demo_fs([''out''] \<mapsto> Dir), st = 0, trace = []\<rparr>"

section \<open>Auxiliary facts\<close>

subsection \<open>Projections, writes, one epoch\<close>

lemma map_filter_append: "List.map_filter f (xs @ ys) = List.map_filter f xs @ List.map_filter f ys"
  by (simp add: List.map_filter_def)

lemmas proj_defs = val_losses_def train_losses_def passes_def rows_written_def checkpoints_def
  saved_epochs_def datasets_def

lemma open_write_other: "open_write k F p bytes = Inr F' \<Longrightarrow> q \<noteq> p \<Longrightarrow> F' q = F q"
  by (auto simp: open_write_def split: if_splits)


lemma epoch_None:
  assumes "epoch E out i b w = (None, b', w')"
  shows "\<exists>tl vl s1 fs3.
     train_one_epoch E (st w) = Inr (tl, s1) \<and>
     test_one_epoch E s1 = Inr (vl, st w') \<and>
     open_write True (fs w) (out @ [''training_log.csv''])
       (writerow E [CInt (int i), CFloat tl, CFloat vl]) = Inr fs3 \<and>
     b' = (if float_lt vl b then vl else b) \<and>
     trace w' = trace w @ [Trained i tl, Tested i vl, RowWritten [CInt (int i), CFloat tl, CFloat vl]]
                  @ (if float_lt vl b then [Saved i (st w')] else []) \<and>
     (if float_lt vl b
      then \<exists>bytes. jit_script E (st w') = Inr bytes \<and>
             open_write False fs3 (out @ [''model.pt'']) bytes = Inr (fs w')
      else fs w' = fs3)"
  using assms
  by (fastforce simp: epoch_def Let_def split: sum.splits prod.splits if_splits)

lemma epoch_frame:
  assumes "epoch E out i b w = (r, b', w')"
    and "p \<noteq> out @ [''training_log.csv'']" and "p \<noteq> out @ [''model.pt'']"
  shows "fs w' p = fs w p"
  using assms
  by (auto simp: epoch_def Let_def open_write_other split: sum.splits prod.splits if_splits)

lemma epoch_best:
  assumes "epoch E out i b w = (r, b', w')"
  shows "b' = b \<or> float_lt b' b"
  using assms
  by (auto simp: epoch_def Let_def split: sum.splits prod.splits if_splits)

lemma epoch_loop_append:
  "epoch_loop E out (xs @ ys) b w =
     (case epoch_loop E out xs b w of
        (Some e, b1, w1) \<Rightarrow> (Some e, b1, w1)
      | (None, b1, w1) \<Rightarrow> epoch_loop E out ys b1 w1)"
  by (induction xs arbitrary: b w) (auto split: prod.splits option.splits)

lemma epoch_loop_snoc_None:
  assumes "epoch_loop E out (xs @ [i]) b w = (None, b', w')"
  shows "\<exists>b1 w1. epoch_loop E out xs b w = (None, b1, w1) \<and> epoch E out i b1 w1 = (None, b', w')"
  using assms
  by (auto simp: epoch_loop_append split: prod.splits option.splits)

lemma epoch_loop_prefix_None:
  assumes "epoch_loop E out (xs @ ys) b w = (None, b', w')"
  shows "\<exists>b1 w1. epoch_loop E out xs b w = (None, b1, w1) \<and> epoch_loop E out ys b1 w1 = (None, b', w')"
  using assms
  by (auto simp: epoch_loop_append split: prod.splits option.splits)

subsection \<open>Sequencing\<close>

lemma bindE_Inr:
  assumes "bindE m f w = (Inr y, w')"
  obtains x w1 where "m w = (Inr x, w1)" and "f x w1 = (Inr y, w')"
  using assms by (auto simp: bindE_def split: prod.splits sum.splits)

lemma lift_Inr:
  assumes "lift r w = (Inr y, w')"
  obtains "r = Inr y" and "w' = w"
  using assms by (auto simp: lift_def)

lemma call_Inr:
  assumes "call E c w = (Inr u, w')"
  obtains s where "construct E c (st w) = Inr s" and "w' = w\<lparr>trace := trace w @ [Called c], st := s\<rparr>"
  using assms by (auto simp: call_def Let_def split: sum.splits)

lemma build_Inr:
  assumes "build E a cfg w = (Inr ne, w')"
  shows "\<exists>bs d m l opt.
     getitem2 cfg ''training'' ''batch_size'' = Inr bs \<and>
     getitem2 cfg ''training'' ''num_epochs'' = Inr ne \<and>
     getitem cfg ''data'' = Inr d \<and>
     getitem cfg ''model'' = Inr m \<and>
     getitem2 cfg ''training'' ''loss'' = Inr l \<and>
     getitem2 cfg ''training'' ''optimizer'' = Inr opt \<and>
     fs w' = fs w \<and>
     trace w' = trace w @ map Called
       [PointCloudDataset (train_data a) d, PointCloudDataset (val_data a) d, Regressor m,
        CustomLoss l, Build_optimizer opt, Model_to_device,
        DataLoader TrainSplit bs True, DataLoader ValidationSplit bs False]"
  using assms unfolding build_def
  by (elim bindE_Inr lift_Inr call_Inr) auto

subsection \<open>The loop after \<open>k\<close> epochs\<close>

lemma epoch_None_trace:
  assumes "epoch E out i b w = (None, b', w')"
  shows "\<exists>tl vl.
     b' = (if float_lt vl b then vl else b) \<and>
     trace w' = trace w @ [Trained i tl, Tested i vl, RowWritten [CInt (int i), CFloat tl, CFloat vl]]
                  @ (if float_lt vl b then [Saved i (st w')] else [])"
  using epoch_None [OF assms] by blast

lemma loop_passes:
  "epoch_loop E out [0..<k] b0 w = (None, b, w') \<Longrightarrow>
   passes (trace w') = passes (trace w) @ concat (map (\<lambda>i. [(TrainPass, i), (TestPass, i)]) [0..<k])"
proof (induction k arbitrary: b w')
  case 0
  then show ?case by simp
next
  case (Suc k)
  from Suc.prems obtain b1 w1 where l: "epoch_loop E out [0..<k] b0 w = (None, b1, w1)"
    and e: "epoch E out k b1 w1 = (None, b, w')"
    using epoch_loop_snoc_None [of E out "[0..<k]" k b0 w b w'] by auto
  from epoch_None_trace [OF e] have "passes (trace w') = passes (trace w1) @ [(TrainPass, k), (TestPass, k)]"
    by (auto simp: passes_def map_filter_append List.map_filter_simps)
  with Suc.IH [OF l] show ?case by simp
qed

lemma loop_losses:
  assumes "epoch_loop E out [0..<k] b0 w = (None, b, w')"
    and "val_losses (trace w) = []" and "train_losses (trace w) = []" and "rows_written (trace w) = []"
  shows "length (val_losses (trace w')) = k \<and> length (train_losses (trace w')) = k \<and>
    rows_written (trace w') =
      map (\<lambda>i. [CInt (int i), CFloat (train_losses (trace w') ! i), CFloat (val_losses (trace w') ! i)]) [0..<k]"
  using assms(1)
proof (induction k arbitrary: b w')
  case 0
  then show ?case using assms(2-) by simp
next
  case (Suc k)
  from Suc.prems obtain b1 w1 where l: "epoch_loop E out [0..<k] b0 w = (None, b1, w1)"
    and e: "epoch E out k b1 w1 = (None, b, w')"
    using epoch_loop_snoc_None [of E out "[0..<k]" k b0 w b w'] by auto
  from epoch_None_trace [OF e] obtain tl vl where
    v: "val_losses (trace w') = val_losses (trace w1) @ [vl]"
    and t: "train_losses (trace w') = train_losses (trace w1) @ [tl]"
    and r: "rows_written (trace w') = rows_written (trace w1) @ [[CInt (int k), CFloat tl, CFloat vl]]"
    by (auto simp: proj_defs map_filter_append List.map_filter_simps)
  from Suc.IH [OF l] have lv: "length (val_losses (trace w1)) = k"
    and lt: "length (train_losses (trace w1)) = k"
    and rw: "rows_written (trace w1) =
      map (\<lambda>i. [CInt (int i), CFloat (train_losses (trace w1) ! i), CFloat (val_losses (trace w1) ! i)]) [0..<k]"
    by auto
  show ?case
    unfolding v t r by (subst rw) (simp add: lv lt nth_append)
qed

lemma loop_best:
  assumes "epoch_loop E out [0..<k] PosInf w = (None, b, w')" and "val_losses (trace w) = []"
  shows "b = best_of (val_losses (trace w'))"
  using assms(1)
proof (induction k arbitrary: b w')
  case 0
  then show ?case using assms(2) by (simp add: best_of_def)
next
  case (Suc k)
  from Suc.prems obtain b1 w1 where l: "epoch_loop E out [0..<k] PosInf w = (None, b1, w1)"
    and e: "epoch E out k b1 w1 = (None, b, w')"
    using epoch_loop_snoc_None [of E out "[0..<k]" k PosInf w b w'] by auto
  from epoch_None_trace [OF e] obtain vl where
    v: "val_losses (trace w') = val_losses (trace w1) @ [vl]"
    and b: "b = (if float_lt vl b1 then vl else b1)"
    by (auto simp: proj_defs map_filter_append List.map_filter_simps)
  with Suc.IH [OF l] show ?case by (simp add: best_of_def)
qed

lemma improving_snoc:
  "improving (vs @ [v]) = improving vs @ (if float_lt v (best_of vs) then [length vs] else [])"
proof -
  have "filter (\<lambda>i. float_lt ((vs @ [v]) ! i) (best_of (take i (vs @ [v])))) [0..<length vs]
      = filter (\<lambda>i. float_lt (vs ! i) (best_of (take i vs))) [0..<length vs]"
    by (rule filter_cong) (auto simp: nth_append)
  then show ?thesis by (simp add: improving_def)
qed

lemma loop_saved:
  assumes "epoch_loop E out [0..<k] PosInf w = (None, b, w')"
    and "val_losses (trace w) = []" and "train_losses (trace w) = []" and "rows_written (trace w) = []"
    and "checkpoints (trace w) = []"
  shows "saved_epochs (trace w') = improving (val_losses (trace w'))"
  using assms(1)
proof (induction k arbitrary: b w')
  case 0
  then show ?case using assms(2-) by (simp add: improving_def saved_epochs_def)
next
  case (Suc k)
  from Suc.prems obtain b1 w1 where l: "epoch_loop E out [0..<k] PosInf w = (None, b1, w1)"
    and e: "epoch E out k b1 w1 = (None, b, w')"
    using epoch_loop_snoc_None [of E out "[0..<k]" k PosInf w b w'] by auto
  have b1: "b1 = best_of (val_losses (trace w1))" using loop_best [OF l assms(2)] .
  have len: "length (val_losses (trace w1)) = k" using loop_losses [OF l assms(2,3,4)] by simp
  from epoch_None_trace [OF e] obtain vl where
    v: "val_losses (trace w') = val_losses (trace w1) @ [vl]"
    and s: "saved_epochs (trace w') = saved_epochs (trace w1) @ (if float_lt vl b1 then [k] else [])"
    by (auto simp: proj_defs map_filter_append List.map_filter_simps)
  show ?case unfolding v s improving_snoc using Suc.IH [OF l] b1 len by simp
qed

subsection \<open>The order of floats and the running minimum\<close>

lemma float_lt_not_nan: "float_lt a b \<Longrightarrow> \<not> isnan a \<and> \<not> isnan b"
  by (cases a; cases b) auto

lemma float_lt_trans: "float_lt a b \<Longrightarrow> float_lt b c \<Longrightarrow> float_lt a c"
  by (cases a; cases b; cases c) auto

lemma float_le_refl: "\<not> isnan a \<Longrightarrow> float_le a a"
  by (simp add: float_le_def)

lemma float_le_trans: "float_le a b \<Longrightarrow> float_le b c \<Longrightarrow> float_le a c"
  by (auto simp: float_le_def dest: float_lt_trans)

lemma float_not_lt: "\<not> isnan a \<Longrightarrow> \<not> isnan b \<Longrightarrow> \<not> float_lt a b \<Longrightarrow> float_le b a"
  by (cases a; cases b) (auto simp: float_le_def)

lemma float_lt_le_trans: "float_lt a b \<Longrightarrow> float_le b c \<Longrightarrow> float_lt a c"
  by (auto simp: float_le_def dest: float_lt_trans)

lemma float_lt_imp_le: "float_lt a b \<Longrightarrow> float_le a b"
  by (auto simp: float_le_def dest: float_lt_not_nan)

lemma float_le_PosInf: "\<not> isnan a \<Longrightarrow> float_le a PosInf"
  by (cases a) (auto simp: float_le_def)

lemma fold_best_lt:
  "\<not> isnan b \<Longrightarrow>
   float_lt v (fold (\<lambda>v b. if float_lt v b then v else b) vs b) \<longleftrightarrow>
     float_lt v b \<and> (\<forall>u\<in>set vs. isnan u \<or> float_lt v u)"
proof (induction vs arbitrary: b)
  case Nil
  then show ?case by simp
next
  case (Cons u vs)
  let ?b = "if float_lt u b then u else b"
  have nn: "\<not> isnan ?b" using Cons.prems by (auto dest: float_lt_not_nan)
  have "float_lt v ?b \<longleftrightarrow> float_lt v b \<and> (isnan u \<or> float_lt v u)"
  proof (cases "float_lt u b")
    case True
    then show ?thesis using float_lt_not_nan [of u b] by (auto dest: float_lt_trans)
  next
    case False
    show ?thesis
    proof (cases "isnan u")
      case True
      then show ?thesis using False by simp
    next
      case nu: False
      from float_not_lt [OF nu Cons.prems False] have "float_le b u" .
      then show ?thesis using False by (auto dest: float_lt_le_trans)
    qed
  qed
  with Cons.IH [OF nn] show ?case by auto
qed

lemma float_lt_best_of:
  "float_lt v (best_of vs) \<longleftrightarrow> float_lt v PosInf \<and> (\<forall>u\<in>set vs. isnan u \<or> float_lt v u)"
  unfolding best_of_def by (rule fold_best_lt) simp

lemma fold_best_mem:
  "fold (\<lambda>v b. if float_lt v b then v else b) vs b \<in> set (b # filter (\<lambda>v. \<not> isnan v) vs)"
proof (induction vs arbitrary: b)
  case Nil
  then show ?case by simp
next
  case (Cons u vs)
  show ?case using Cons.IH [of "if float_lt u b then u else b"]
    by (auto dest: float_lt_not_nan split: if_splits)
qed

lemma fold_best_le:
  "\<not> isnan b \<Longrightarrow>
   float_le (fold (\<lambda>v b. if float_lt v b then v else b) vs b) b \<and>
   (\<forall>u\<in>set vs. \<not> isnan u \<longrightarrow> float_le (fold (\<lambda>v b. if float_lt v b then v else b) vs b) u)"
proof (induction vs arbitrary: b)
  case Nil
  then show ?case by (simp add: float_le_refl)
next
  case (Cons u vs)
  let ?b = "if float_lt u b then u else b"
  let ?m = "fold (\<lambda>v b. if float_lt v b then v else b) vs ?b"
  have nn: "\<not> isnan ?b" using Cons.prems by (auto dest: float_lt_not_nan)
  from Cons.IH [OF nn] have m: "float_le ?m ?b"
    and rest: "\<forall>x\<in>set vs. \<not> isnan x \<longrightarrow> float_le ?m x" by auto
  have bb: "float_le ?b b" using Cons.prems by (auto simp: float_le_refl float_lt_imp_le)
  have bu: "\<not> isnan u \<Longrightarrow> float_le ?b u"
    using Cons.prems by (auto simp: float_le_refl float_not_lt)
  have "float_le ?m b" using m bb by (rule float_le_trans)
  moreover have "\<not> isnan u \<longrightarrow> float_le ?m u" using m bu by (blast intro: float_le_trans)
  ultimately show ?case using rest by simp
qed

lemma best_of_is_minimum: "is_minimum (best_of vs) (PosInf # filter (\<lambda>v. \<not> isnan v) vs)"
  unfolding is_minimum_def best_of_def
  using fold_best_mem [of vs PosInf] fold_best_le [of PosInf vs]
  by (auto simp: list_all_iff)

lemma best_of_snoc: "best_of (vs @ [v]) = (if float_lt v (best_of vs) then v else best_of vs)"
  by (simp add: best_of_def)

lemma best_of_append_le: "best_of (vs @ us) = best_of vs \<or> float_lt (best_of (vs @ us)) (best_of vs)"
proof (induction us rule: rev_induct)
  case Nil
  then show ?case by simp
next
  case (snoc u us)
  have "best_of (vs @ us @ [u]) = (if float_lt u (best_of (vs @ us)) then u else best_of (vs @ us))"
    using best_of_snoc [of "vs @ us" u] by simp
  with snoc show ?case by (auto dest: float_lt_trans)
qed

subsection \<open>The statements before the loop\<close>

lemma make_dirs_file_iff:
  "make_dirs fault F qs = (r, F') \<Longrightarrow> F' x = Some (File c) \<longleftrightarrow> F x = Some (File c)"
proof (induction qs arbitrary: F)
  case Nil
  then show ?case by simp
next
  case (Cons q qs)
  show ?case
  proof (cases "is_dir F q")
    case True
    with Cons show ?thesis by simp
  next
    case False
    show ?thesis
    proof (cases "fault q = None \<and> F q = None")
      case True
      with False Cons.prems have "make_dirs fault (F(q \<mapsto> Dir)) qs = (r, F')" by simp
      from Cons.IH [OF this] True show ?thesis by (cases "x = q") simp_all
    next
      case no: False
      with False Cons.prems have "F' = F" by (auto split: option.splits if_splits)
      then show ?thesis by simp
    qed
  qed
qed

lemma make_dirs_other:
  "make_dirs fault F qs = (r, F') \<Longrightarrow> x \<notin> set qs \<Longrightarrow> F' x = F x"
proof (induction qs arbitrary: F)
  case Nil
  then show ?case by simp
next
  case (Cons q qs)
  show ?case
  proof (cases "is_dir F q")
    case True
    with Cons show ?thesis by simp
  next
    case False
    show ?thesis
    proof (cases "fault q = None \<and> F q = None")
      case True
      with False Cons.prems have "make_dirs fault (F(q \<mapsto> Dir)) qs = (r, F')" by simp
      from Cons.IH [OF this] Cons.prems(2) show ?thesis by simp
    next
      case no: False
      with False Cons.prems have "F' = F" by (auto split: option.splits if_splits)
      then show ?thesis by simp
    qed
  qed
qed

lemma mkdir_is_dir: "is_dir F p \<Longrightarrow> mkdir fault F p = (None, F)"
  by (simp add: mkdir_def)

lemma mkdir_file: "\<not> is_dir F p \<Longrightarrow> is_file_node (F p) \<Longrightarrow> mkdir fault F p = (Some FileExistsError, F)"
  by (simp add: mkdir_def)

lemma mkdir_file_iff: "mkdir fault F p = (r, F') \<Longrightarrow> F' q = Some (File c) \<longleftrightarrow> F q = Some (File c)"
  by (auto simp: mkdir_def make_dirs_file_iff split: if_splits)

lemma mkdir_other:
  "mkdir fault F p = (r, F') \<Longrightarrow> q \<noteq> p \<Longrightarrow> q \<notin> set (ancestors p) \<Longrightarrow> F' q = F q"
  by (auto simp: mkdir_def split: if_splits dest: make_dirs_other)

lemma child_not_ancestor: "p @ [x] \<notin> set (ancestors p)"
proof
  assume "p @ [x] \<in> set (ancestors p)"
  then obtain k where "p @ [x] = take k p" by (auto simp: ancestors_def)
  then have "length (p @ [x]) = length (take k p)" by simp
  then show False by simp
qed

lemma read_file_Inr: "read_file F p = Inr c \<Longrightarrow> F p = Some (File c)"
  by (auto simp: read_file_def split: if_splits option.splits node.splits)

lemma open_write_False: "open_write False F p b = Inr F' \<Longrightarrow> F' = F(p \<mapsto> File b)"
  by (auto simp: open_write_def split: if_splits option.splits node.splits)

lemma load_config_same: "load_config E a w = (r, w') \<Longrightarrow> w' = w"
  by (auto simp: load_config_def split: sum.splits option.splits)

lemma load_config_Inr:
  "load_config E a w = (Inr cfg, w') \<Longrightarrow>
   \<exists>bytes. read_file (fs w) (config a) = Inr bytes \<and> tomllib_loads E bytes = Some cfg"
  by (auto simp: load_config_def split: sum.splits option.splits)

lemma copy_config_Inl: "copy_config a out w = (Inl e, w') \<Longrightarrow> w' = w"
  by (auto simp: copy_config_def split: sum.splits)

lemma copy_config_Inr:
  "copy_config a out w = (Inr u, w') \<Longrightarrow>
   \<exists>bytes. read_file (fs w) (config a) = Inr bytes \<and>
     fs w' = (fs w)(out @ [''config.toml''] \<mapsto> File bytes) \<and> st w' = st w \<and>
     trace w' = trace w @ [CopyDone (config a) (out @ [''config.toml''])]"
  by (auto simp: copy_config_def copyfile_def split: sum.splits if_splits dest: open_write_False)

lemma calls_only_lift: "calls_only (lift r)"
  by (simp add: calls_only_def lift_def)

lemma calls_only_call: "calls_only (call E c)"
proof -
  have "\<exists>cs. tr @ [Called c] = tr @ map Called cs" for tr :: "'a event list"
    by (rule exI [of _ "[c]"]) simp
  then show ?thesis
    by (simp add: calls_only_def call_def Let_def split: sum.splits)
qed

lemma calls_only_bindE:
  assumes "calls_only m" and "\<And>x. calls_only (f x)"
  shows "calls_only (bindE m f)"
  unfolding calls_only_def
proof (intro allI impI)
  fix w r w'
  assume b: "bindE m f w = (r, w')"
  obtain r1 w1 where m: "m w = (r1, w1)" by (cases "m w")
  from assms(1) m have "fs w1 = fs w \<and> (\<exists>cs. trace w1 = trace w @ map Called cs)"
    unfolding calls_only_def by blast
  then obtain cs1 where 1: "fs w1 = fs w" "trace w1 = trace w @ map Called cs1" by blast
  show "fs w' = fs w \<and> (\<exists>cs. trace w' = trace w @ map Called cs)"
  proof (cases r1)
    case (Inl e)
    with b m have "w' = w1" by (simp add: bindE_def)
    with 1 show ?thesis by auto
  next
    case (Inr x)
    with b m have "f x w1 = (r, w')" by (simp add: bindE_def)
    with assms(2) [of x] have "fs w' = fs w1 \<and> (\<exists>cs. trace w' = trace w1 @ map Called cs)"
      unfolding calls_only_def by blast
    then obtain cs2 where "fs w' = fs w1" "trace w' = trace w1 @ map Called cs2" by blast
    with 1 have "fs w' = fs w" "trace w' = trace w @ map Called (cs1 @ cs2)" by auto
    then show ?thesis by blast
  qed
qed

lemma calls_only_build: "calls_only (build E a cfg)"
  unfolding build_def
  by (intro calls_only_bindE calls_only_lift calls_only_call)

lemma build_any:
  "build E a cfg w = (r, w') \<Longrightarrow> fs w' = fs w \<and> (\<exists>cs. trace w' = trace w @ map Called cs)"
  using calls_only_build [of E a cfg] by (auto simp: calls_only_def)

lemma configure_any:
  assumes "configure E a out w = (r, w')"
  shows "w' = w \<or>
    (\<exists>bytes cfg cs. read_file (fs w) (config a) = Inr bytes \<and> tomllib_loads E bytes = Some cfg \<and>
       fs w' = (fs w)(out @ [''config.toml''] \<mapsto> File bytes) \<and>
       trace w' = trace w @ CopyDone (config a) (out @ [''config.toml'']) # map Called cs)"
proof -
  obtain r1 w1 where l: "load_config E a w = (r1, w1)" by (cases "load_config E a w")
  have w1: "w1 = w" using load_config_same [OF l] .
  show ?thesis
  proof (cases r1)
    case (Inl e)
    with assms l w1 show ?thesis by (simp add: configure_def bindE_def)
  next
    case (Inr cfg)
    from load_config_Inr l Inr w1 obtain bytes where
      rd: "read_file (fs w) (config a) = Inr bytes" "tomllib_loads E bytes = Some cfg" by blast
    obtain r2 w2 where c: "copy_config a out w = (r2, w2)" by (cases "copy_config a out w")
    show ?thesis
    proof (cases r2)
      case (Inl e)
      with assms l w1 Inr c copy_config_Inl [of a out w e w2] show ?thesis
        by (simp add: configure_def bindE_def)
    next
      case cp: (Inr u)
      from copy_config_Inr [of a out w u w2] c cp rd have
        2: "fs w2 = (fs w)(out @ [''config.toml''] \<mapsto> File bytes)"
           "trace w2 = trace w @ [CopyDone (config a) (out @ [''config.toml''])]" by auto
      from assms l w1 Inr c cp have "build E a cfg w2 = (r, w')"
        by (simp add: configure_def bindE_def)
      from build_any [OF this] 2 rd show ?thesis by auto
    qed
  qed
qed

lemma configure_Inr:
  assumes "configure E a out w = (Inr ne, w')"
  shows "\<exists>bytes cfg bs d m l opt.
     read_file (fs w) (config a) = Inr bytes \<and> tomllib_loads E bytes = Some cfg \<and>
     getitem2 cfg ''training'' ''batch_size'' = Inr bs \<and>
     getitem2 cfg ''training'' ''num_epochs'' = Inr ne \<and>
     getitem cfg ''data'' = Inr d \<and>
     getitem cfg ''model'' = Inr m \<and>
     getitem2 cfg ''training'' ''loss'' = Inr l \<and>
     getitem2 cfg ''training'' ''optimizer'' = Inr opt \<and>
     fs w' = (fs w)(out @ [''config.toml''] \<mapsto> File bytes) \<and>
     trace w' = trace w @ CopyDone (config a) (out @ [''config.toml'']) # map Called
       [PointCloudDataset (train_data a) d, PointCloudDataset (val_data a) d, Regressor m,
        CustomLoss l, Build_optimizer opt, Model_to_device,
        DataLoader TrainSplit bs True, DataLoader ValidationSplit bs False]"
proof -
  from assms obtain cfg w1 u w2 where l: "load_config E a w = (Inr cfg, w1)"
    and c: "copy_config a out w1 = (Inr u, w2)" and b: "build E a cfg w2 = (Inr ne, w')"
    unfolding configure_def by (elim bindE_Inr)
  have w1: "w1 = w" using load_config_same [OF l] .
  from load_config_Inr [OF l] obtain bytes where
    rd: "read_file (fs w) (config a) = Inr bytes" "tomllib_loads E bytes = Some cfg" by blast
  from copy_config_Inr [OF c] rd w1 have
    2: "fs w2 = (fs w)(out @ [''config.toml''] \<mapsto> File bytes)"
       "trace w2 = trace w @ [CopyDone (config a) (out @ [''config.toml''])]" by auto
  from build_Inr [OF b] 2 rd show ?thesis by auto
qed

lemma open_log_Inl: "open_log E out w = (Inl e, w') \<Longrightarrow> w' = w"
  by (auto simp: open_log_def Let_def split: sum.splits)

lemma open_log_Inr:
  "open_log E out w = (Inr u, w') \<Longrightarrow>
     fs w' = (fs w)(out @ [''training_log.csv''] \<mapsto> File (writerow E header)) \<and> st w' = st w \<and>
     trace w' = trace w @ [HeaderWritten (out @ [''training_log.csv''])]"
  by (auto simp: open_log_def Let_def split: sum.splits dest: open_write_False)

lemma main_cases:
  assumes "main E a fs0 s0 = (r, w)"
  obtains
    (refused) "path_exists fs0 (out_dir E a)" "\<not> force a" "r = Some FileExistsError"
      "w = \<lparr>fs = fs0, st = s0, trace = []\<rparr>"
  | (mkdir_failed) e fs1 where "\<not> (path_exists fs0 (out_dir E a) \<and> \<not> force a)"
      "mkdir (os_fault E) fs0 (out_dir E a) = (Some e, fs1)" "r = Some e"
      "w = \<lparr>fs = fs1, st = s0, trace = []\<rparr>"
  | (configure_failed) fs1 e where "\<not> (path_exists fs0 (out_dir E a) \<and> \<not> force a)"
      "mkdir (os_fault E) fs0 (out_dir E a) = (None, fs1)"
      "configure E a (out_dir E a) \<lparr>fs = fs1, st = s0, trace = [MkdirDone (out_dir E a)]\<rparr> = (Inl e, w)"
      "r = Some e"
  | (open_log_failed) fs1 ne w1 e where "\<not> (path_exists fs0 (out_dir E a) \<and> \<not> force a)"
      "mkdir (os_fault E) fs0 (out_dir E a) = (None, fs1)"
      "configure E a (out_dir E a) \<lparr>fs = fs1, st = s0, trace = [MkdirDone (out_dir E a)]\<rparr> = (Inr ne, w1)"
      "open_log E (out_dir E a) w1 = (Inl e, w)" "r = Some e"
  | (range_failed) fs1 ne w1 where "\<not> (path_exists fs0 (out_dir E a) \<and> \<not> force a)"
      "mkdir (os_fault E) fs0 (out_dir E a) = (None, fs1)"
      "configure E a (out_dir E a) \<lparr>fs = fs1, st = s0, trace = [MkdirDone (out_dir E a)]\<rparr> = (Inr ne, w1)"
      "open_log E (out_dir E a) w1 = (Inr (), w)" "int_value ne = None" "r = Some TypeError"
  | (looped) fs1 ne w1 w2 n b where "\<not> (path_exists fs0 (out_dir E a) \<and> \<not> force a)"
      "mkdir (os_fault E) fs0 (out_dir E a) = (None, fs1)"
      "configure E a (out_dir E a) \<lparr>fs = fs1, st = s0, trace = [MkdirDone (out_dir E a)]\<rparr> = (Inr ne, w1)"
      "open_log E (out_dir E a) w1 = (Inr (), w2)" "int_value ne = Some n"
      "epoch_loop E (out_dir E a) [0..<nat n] PosInf w2 = (r, b, w)"
  using assms unfolding main_def Let_def range_py_def
  by (auto split: if_splits sum.splits prod.splits option.splits)

subsection \<open>Files written by the loop\<close>

lemma epoch_trace_ext: "epoch E out i b w = (r, b', w') \<Longrightarrow> \<exists>tr. trace w' = trace w @ tr"
  by (auto simp: epoch_def Let_def split: sum.splits prod.splits if_splits)

lemma epoch_loop_frame:
  "epoch_loop E out is b w = (r, b', w') \<Longrightarrow>
   p \<noteq> out @ [''training_log.csv''] \<Longrightarrow> p \<noteq> out @ [''model.pt''] \<Longrightarrow> fs w' p = fs w p"
proof (induction "is" arbitrary: b w)
  case Nil
  then show ?case by simp
next
  case (Cons i rest)
  obtain r1 b1 w1 where e: "epoch E out i b w = (r1, b1, w1)" by (cases "epoch E out i b w")
  have f: "fs w1 p = fs w p" using epoch_frame [OF e Cons.prems(2,3)] .
  show ?case
  proof (cases r1)
    case None
    with Cons.prems(1) e have "epoch_loop E out rest b1 w1 = (r, b', w')" by simp
    from Cons.IH [OF this Cons.prems(2,3)] f show ?thesis by simp
  next
    case (Some x)
    with Cons.prems(1) e f show ?thesis by simp
  qed
qed

lemma epoch_loop_trace_ext:
  "epoch_loop E out is b w = (r, b', w') \<Longrightarrow> \<exists>tr. trace w' = trace w @ tr"
proof (induction "is" arbitrary: b w)
  case Nil
  then show ?case by simp
next
  case (Cons i rest)
  obtain r1 b1 w1 where e: "epoch E out i b w = (r1, b1, w1)" by (cases "epoch E out i b w")
  from epoch_trace_ext [OF e] obtain tr1 where t: "trace w1 = trace w @ tr1" by blast
  show ?case
  proof (cases r1)
    case None
    with Cons.prems(1) e have "epoch_loop E out rest b1 w1 = (r, b', w')" by simp
    from Cons.IH [OF this] t show ?thesis by auto
  next
    case (Some x)
    with Cons.prems(1) e t show ?thesis by auto
  qed
qed



lemma epoch_None_model:
  assumes "epoch E out i b w = (None, b', w')"
  shows "(checkpoints (trace w') = checkpoints (trace w) \<and>
          fs w' (out @ [''model.pt'']) = fs w (out @ [''model.pt''])) \<or>
         (\<exists>bytes. checkpoints (trace w') = checkpoints (trace w) @ [(i, st w')] \<and>
            jit_script E (st w') = Inr bytes \<and> fs w' (out @ [''model.pt'']) = Some (File bytes))"
proof -
  from epoch_None [OF assms(1)] obtain tl vl fs3 where
    ow: "open_write True (fs w) (out @ [''training_log.csv''])
       (writerow E [CInt (int i), CFloat tl, CFloat vl]) = Inr fs3"
    and tr: "trace w' = trace w @ [Trained i tl, Tested i vl, RowWritten [CInt (int i), CFloat tl, CFloat vl]]
                  @ (if float_lt vl b then [Saved i (st w')] else [])"
    and f: "if float_lt vl b
      then \<exists>bytes. jit_script E (st w') = Inr bytes \<and>
             open_write False fs3 (out @ [''model.pt'']) bytes = Inr (fs w')
      else fs w' = fs3"
    by blast
  have 3: "fs3 (out @ [''model.pt'']) = fs w (out @ [''model.pt''])"
    using open_write_other [OF ow, of "out @ [''model.pt'']"] by simp
  show ?thesis
  proof (cases "float_lt vl b")
    case True
    with f obtain bytes where j: "jit_script E (st w') = Inr bytes"
      and o: "open_write False fs3 (out @ [''model.pt'']) bytes = Inr (fs w')" by auto
    from open_write_False [OF o] have "fs w' (out @ [''model.pt'']) = Some (File bytes)" by simp
    moreover from tr True have "checkpoints (trace w') = checkpoints (trace w) @ [(i, st w')]"
      by (simp add: proj_defs map_filter_append List.map_filter_simps)
    ultimately show ?thesis using j by blast
  next
    case False
    with f 3 have "fs w' (out @ [''model.pt'']) = fs w (out @ [''model.pt''])" by simp
    moreover from tr False have "checkpoints (trace w') = checkpoints (trace w)"
      by (simp add: proj_defs map_filter_append List.map_filter_simps)
    ultimately show ?thesis by blast
  qed
qed

lemma loop_model:
  assumes "epoch_loop E out [0..<k] b0 w = (None, b, w')" and "checkpoints (trace w) = []"
  shows "(checkpoints (trace w') = [] \<and> fs w' (out @ [''model.pt'']) = fs w (out @ [''model.pt''])) \<or>
         (\<exists>bytes. checkpoints (trace w') \<noteq> [] \<and>
            jit_script E (snd (last (checkpoints (trace w')))) = Inr bytes \<and>
            fs w' (out @ [''model.pt'']) = Some (File bytes))"
  using assms(1)
proof (induction k arbitrary: b w')
  case 0
  then show ?case using assms(2) by simp
next
  case (Suc k)
  from Suc.prems obtain b1 w1 where l: "epoch_loop E out [0..<k] b0 w = (None, b1, w1)"
    and e: "epoch E out k b1 w1 = (None, b, w')"
    using epoch_loop_snoc_None [of E out "[0..<k]" k b0 w b w'] by auto
  from epoch_None_model [OF e] Suc.IH [OF l] show ?case by auto
qed

subsection \<open>A run that ends without an exception\<close>

lemma main_None:
  assumes "main E a fs0 s0 = (None, w)"
  obtains fs1 bytes cfg bs ne d m l opt n w2 b where
    "\<not> (path_exists fs0 (out_dir E a) \<and> \<not> force a)"
    "mkdir (os_fault E) fs0 (out_dir E a) = (None, fs1)"
    "fs0 (config a) = Some (File bytes)" "tomllib_loads E bytes = Some cfg"
    "getitem2 cfg ''training'' ''batch_size'' = Inr bs"
    "getitem2 cfg ''training'' ''num_epochs'' = Inr ne"
    "getitem cfg ''data'' = Inr d"
    "int_value ne = Some n"
    "fs w2 = fs1(out_dir E a @ [''config.toml''] \<mapsto> File bytes,
                out_dir E a @ [''training_log.csv''] \<mapsto> File (writerow E header))"
    "trace w2 = MkdirDone (out_dir E a) # CopyDone (config a) (out_dir E a @ [''config.toml'']) #
       map Called
        [PointCloudDataset (train_data a) d, PointCloudDataset (val_data a) d, Regressor m,
         CustomLoss l, Build_optimizer opt, Model_to_device,
         DataLoader TrainSplit bs True, DataLoader ValidationSplit bs False]
       @ [HeaderWritten (out_dir E a @ [''training_log.csv''])]"
    "epoch_loop E (out_dir E a) [0..<nat n] PosInf w2 = (None, b, w)"
  using assms
proof (cases rule: main_cases)
  case (looped fs1 ne w1 w2 n b)
  from configure_Inr [OF looped(3)] obtain bytes cfg bs d m l opt where c:
    "read_file fs1 (config a) = Inr bytes" "tomllib_loads E bytes = Some cfg"
    "getitem2 cfg ''training'' ''batch_size'' = Inr bs"
    "getitem2 cfg ''training'' ''num_epochs'' = Inr ne"
    "getitem cfg ''data'' = Inr d"
    "fs w1 = fs1(out_dir E a @ [''config.toml''] \<mapsto> File bytes)"
    "trace w1 = MkdirDone (out_dir E a) # CopyDone (config a) (out_dir E a @ [''config.toml'']) #
       map Called
        [PointCloudDataset (train_data a) d, PointCloudDataset (val_data a) d, Regressor m,
         CustomLoss l, Build_optimizer opt, Model_to_device,
         DataLoader TrainSplit bs True, DataLoader ValidationSplit bs False]"
    by auto
  from read_file_Inr [OF c(1)] mkdir_file_iff [OF looped(2)]
  have f0: "fs0 (config a) = Some (File bytes)" by simp
  from open_log_Inr [OF looped(4)] c(6,7) have
    "fs w2 = fs1(out_dir E a @ [''config.toml''] \<mapsto> File bytes,
                out_dir E a @ [''training_log.csv''] \<mapsto> File (writerow E header))"
    "trace w2 = MkdirDone (out_dir E a) # CopyDone (config a) (out_dir E a @ [''config.toml'']) #
       map Called
        [PointCloudDataset (train_data a) d, PointCloudDataset (val_data a) d, Regressor m,
         CustomLoss l, Build_optimizer opt, Model_to_device,
         DataLoader TrainSplit bs True, DataLoader ValidationSplit bs False]
       @ [HeaderWritten (out_dir E a @ [''training_log.csv''])]"
    by auto
  with looped c f0 that show ?thesis by blast
qed auto

lemma setup_projections:
  assumes "tr = MkdirDone p # CopyDone q q' # map Called cs @ [HeaderWritten p']"
  shows "val_losses tr = []" "train_losses tr = []" "rows_written tr = []" "checkpoints tr = []"
    "passes tr = []"
  unfolding assms proj_defs
  by (induction cs; simp add: List.map_filter_simps)+

subsection \<open>The stage a run has reached\<close>

lemma called_projections:
  "val_losses (map Called cs) = []" "train_losses (map Called cs) = []"
  "rows_written (map Called cs) = []" "checkpoints (map Called cs) = []" "passes (map Called cs) = []"
  unfolding proj_defs by (induction cs; simp add: List.map_filter_simps)+

lemma configure_Inr_calls:
  assumes "configure E a out w = (Inr ne, w')"
  shows "\<exists>bytes cfg cs.
     read_file (fs w) (config a) = Inr bytes \<and> tomllib_loads E bytes = Some cfg \<and>
     getitem2 cfg ''training'' ''num_epochs'' = Inr ne \<and>
     fs w' = (fs w)(out @ [''config.toml''] \<mapsto> File bytes) \<and>
     trace w' = trace w @ CopyDone (config a) (out @ [''config.toml'']) # map Called cs"
proof -
  from configure_Inr [OF assms] obtain bytes cfg bs d m l opt where
    "read_file (fs w) (config a) = Inr bytes" "tomllib_loads E bytes = Some cfg"
    "getitem2 cfg ''training'' ''num_epochs'' = Inr ne"
    "fs w' = (fs w)(out @ [''config.toml''] \<mapsto> File bytes)"
    "trace w' = trace w @ CopyDone (config a) (out @ [''config.toml'']) # map Called
       [PointCloudDataset (train_data a) d, PointCloudDataset (val_data a) d, Regressor m,
        CustomLoss l, Build_optimizer opt, Model_to_device,
        DataLoader TrainSplit bs True, DataLoader ValidationSplit bs False]"
    by blast
  then show ?thesis by blast
qed

lemma main_any:
  assumes "main E a fs0 s0 = (r, w)"
  obtains
    (refused) "path_exists fs0 (out_dir E a)" "\<not> force a" "r = Some FileExistsError"
      "w = \<lparr>fs = fs0, st = s0, trace = []\<rparr>"
  | (mkdir_failed) e fs1 where "\<not> (path_exists fs0 (out_dir E a) \<and> \<not> force a)"
      "mkdir (os_fault E) fs0 (out_dir E a) = (Some e, fs1)" "r = Some e"
      "w = \<lparr>fs = fs1, st = s0, trace = []\<rparr>"
  | (made) fs1 where "\<not> (path_exists fs0 (out_dir E a) \<and> \<not> force a)"
      "mkdir (os_fault E) fs0 (out_dir E a) = (None, fs1)"
      "w = \<lparr>fs = fs1, st = s0, trace = [MkdirDone (out_dir E a)]\<rparr>" "r \<noteq> None"
  | (copied) fs1 bytes cfg cs where "\<not> (path_exists fs0 (out_dir E a) \<and> \<not> force a)"
      "mkdir (os_fault E) fs0 (out_dir E a) = (None, fs1)"
      "fs0 (config a) = Some (File bytes)" "tomllib_loads E bytes = Some cfg"
      "fs w = fs1(out_dir E a @ [''config.toml''] \<mapsto> File bytes)"
      "trace w = MkdirDone (out_dir E a) # CopyDone (config a) (out_dir E a @ [''config.toml'']) #
                 map Called cs"
      "r \<noteq> None"
  | (range_failed) fs1 bytes cfg cs ne where "\<not> (path_exists fs0 (out_dir E a) \<and> \<not> force a)"
      "mkdir (os_fault E) fs0 (out_dir E a) = (None, fs1)"
      "fs0 (config a) = Some (File bytes)" "tomllib_loads E bytes = Some cfg"
      "getitem2 cfg ''training'' ''num_epochs'' = Inr ne" "int_value ne = None"
      "fs w = fs1(out_dir E a @ [''config.toml''] \<mapsto> File bytes,
                 out_dir E a @ [''training_log.csv''] \<mapsto> File (writerow E header))"
      "trace w = MkdirDone (out_dir E a) # CopyDone (config a) (out_dir E a @ [''config.toml'']) #
                 map Called cs @ [HeaderWritten (out_dir E a @ [''training_log.csv''])]"
      "r = Some TypeError"
  | (looped) fs1 bytes cfg cs ne n w2 b where "\<not> (path_exists fs0 (out_dir E a) \<and> \<not> force a)"
      "mkdir (os_fault E) fs0 (out_dir E a) = (None, fs1)"
      "fs0 (config a) = Some (File bytes)" "tomllib_loads E bytes = Some cfg"
      "getitem2 cfg ''training'' ''num_epochs'' = Inr ne" "int_value ne = Some n"
      "fs w2 = fs1(out_dir E a @ [''config.toml''] \<mapsto> File bytes,
                  out_dir E a @ [''training_log.csv''] \<mapsto> File (writerow E header))"
      "trace w2 = MkdirDone (out_dir E a) # CopyDone (config a) (out_dir E a @ [''config.toml'']) #
                 map Called cs @ [HeaderWritten (out_dir E a @ [''training_log.csv''])]"
      "epoch_loop E (out_dir E a) [0..<nat n] PosInf w2 = (r, b, w)"
  using assms
proof (cases rule: main_cases)
  case refused
  then show ?thesis using that(1) by simp
next
  case (mkdir_failed e fs1)
  then show ?thesis using that(2) by blast
next
  case (configure_failed fs1 e)
  from configure_any [OF configure_failed(3)] show ?thesis
  proof
    assume "w = \<lparr>fs = fs1, st = s0, trace = [MkdirDone (out_dir E a)]\<rparr>"
    with configure_failed show ?thesis using made by simp
  next
    assume "\<exists>bytes cfg cs.
       read_file (fs \<lparr>fs = fs1, st = s0, trace = [MkdirDone (out_dir E a)]\<rparr>) (config a) = Inr bytes \<and>
       tomllib_loads E bytes = Some cfg \<and>
       fs w = (fs \<lparr>fs = fs1, st = s0, trace = [MkdirDone (out_dir E a)]\<rparr>)
                 (out_dir E a @ [''config.toml''] \<mapsto> File bytes) \<and>
       trace w = trace \<lparr>fs = fs1, st = s0, trace = [MkdirDone (out_dir E a)]\<rparr> @
                 CopyDone (config a) (out_dir E a @ [''config.toml'']) # map Called cs"
    then obtain bytes cfg cs where c: "read_file fs1 (config a) = Inr bytes"
      "tomllib_loads E bytes = Some cfg"
      "fs w = fs1(out_dir E a @ [''config.toml''] \<mapsto> File bytes)"
      "trace w = MkdirDone (out_dir E a) # CopyDone (config a) (out_dir E a @ [''config.toml'']) #
                 map Called cs"
      by auto
    from read_file_Inr [OF c(1)] mkdir_file_iff [OF configure_failed(2)]
    have "fs0 (config a) = Some (File bytes)" by simp
    with configure_failed c show ?thesis using copied by simp
  qed
next
  case (open_log_failed fs1 ne w1 e)
  from configure_Inr_calls [OF open_log_failed(3)]
  obtain bytes cfg cs where c: "read_file fs1 (config a) = Inr bytes"
      "tomllib_loads E bytes = Some cfg"
      "fs w1 = fs1(out_dir E a @ [''config.toml''] \<mapsto> File bytes)"
      "trace w1 = MkdirDone (out_dir E a) # CopyDone (config a) (out_dir E a @ [''config.toml'']) #
                 map Called cs"
    by auto
  from read_file_Inr [OF c(1)] mkdir_file_iff [OF open_log_failed(2)]
  have "fs0 (config a) = Some (File bytes)" by simp
  with open_log_failed c open_log_Inl [OF open_log_failed(4)] show ?thesis using copied by simp
next
  case (range_failed fs1 ne w1)
  from configure_Inr_calls [OF range_failed(3)]
  obtain bytes cfg cs where c: "read_file fs1 (config a) = Inr bytes"
      "tomllib_loads E bytes = Some cfg" "getitem2 cfg ''training'' ''num_epochs'' = Inr ne"
      "fs w1 = fs1(out_dir E a @ [''config.toml''] \<mapsto> File bytes)"
      "trace w1 = MkdirDone (out_dir E a) # CopyDone (config a) (out_dir E a @ [''config.toml'']) #
                 map Called cs"
    by auto
  from read_file_Inr [OF c(1)] mkdir_file_iff [OF range_failed(2)]
  have f: "fs0 (config a) = Some (File bytes)" by simp
  from open_log_Inr [OF range_failed(4)] c(4,5) have
    "fs w = fs1(out_dir E a @ [''config.toml''] \<mapsto> File bytes,
                 out_dir E a @ [''training_log.csv''] \<mapsto> File (writerow E header))"
    "trace w = MkdirDone (out_dir E a) # CopyDone (config a) (out_dir E a @ [''config.toml'']) #
                 map Called cs @ [HeaderWritten (out_dir E a @ [''training_log.csv''])]"
    by auto
  with range_failed(1,2,5,6) c(2,3) f show ?thesis using that(5) by blast
next
  case (looped fs1 ne w1 w2 n b)
  from configure_Inr_calls [OF looped(3)]
  obtain bytes cfg cs where c: "read_file fs1 (config a) = Inr bytes"
      "tomllib_loads E bytes = Some cfg" "getitem2 cfg ''training'' ''num_epochs'' = Inr ne"
      "fs w1 = fs1(out_dir E a @ [''config.toml''] \<mapsto> File bytes)"
      "trace w1 = MkdirDone (out_dir E a) # CopyDone (config a) (out_dir E a @ [''config.toml'']) #
                 map Called cs"
    by auto
  from read_file_Inr [OF c(1)] mkdir_file_iff [OF looped(2)]
  have f: "fs0 (config a) = Some (File bytes)" by simp
  from open_log_Inr [OF looped(4)] c(4,5) have
    "fs w2 = fs1(out_dir E a @ [''config.toml''] \<mapsto> File bytes,
                 out_dir E a @ [''training_log.csv''] \<mapsto> File (writerow E header))"
    "trace w2 = MkdirDone (out_dir E a) # CopyDone (config a) (out_dir E a @ [''config.toml'']) #
                 map Called cs @ [HeaderWritten (out_dir E a @ [''training_log.csv''])]"
    by auto
  with looped(1,2,5,6) c(2,3) f show ?thesis using that(6) by blast
qed

section \<open>The claims\<close>

lemma improving_lt: "i \<in> set (improving vs) \<Longrightarrow> i < length vs"
  by (simp add: improving_def)

lemma improving_iff:
  "i \<in> set (improving vs) \<longleftrightarrow>
     i < length vs \<and> float_lt (vs ! i) PosInf \<and> (\<forall>u\<in>set (take i vs). isnan u \<or> float_lt (vs ! i) u)"
  by (auto simp: improving_def float_lt_best_of)

lemma best_of_last_improving:
  "improving vs \<noteq> [] \<Longrightarrow> best_of vs = vs ! last (improving vs)"
proof (induction vs rule: rev_induct)
  case Nil
  then show ?case by (simp add: improving_def)
next
  case (snoc v vs)
  show ?case
  proof (cases "float_lt v (best_of vs)")
    case True
    then show ?thesis by (simp add: improving_snoc best_of_snoc)
  next
    case False
    with snoc.prems have ne: "improving vs \<noteq> []" by (simp add: improving_snoc)
    then have "last (improving vs) \<in> set (improving vs)" by simp
    then have "last (improving vs) < length vs" by (rule improving_lt)
    with False snoc.IH [OF ne] show ?thesis by (simp add: improving_snoc best_of_snoc nth_append)
  qed
qed

lemma main_saved:
  assumes "main E a fs0 s0 = (None, w)"
  shows "saved_epochs (trace w) = improving (val_losses (trace w))"
  using assms
proof (cases rule: main_None)
  case (1 fs1 bytes cfg bs ne d m l opt n w2 b)
  note p = setup_projections [OF 1(10)]
  show ?thesis using loop_saved [OF 1(11) p(1,2,3,4)] .
qed

lemma main_model:
  assumes "main E a fs0 s0 = (None, w)" and "checkpoints (trace w) \<noteq> []"
  shows "\<exists>bytes. jit_script E (snd (last (checkpoints (trace w)))) = Inr bytes \<and>
            fs w (out_dir E a @ [''model.pt'']) = Some (File bytes)"
  using assms(1)
proof (cases rule: main_None)
  case (1 fs1 bytes cfg bs ne d m l opt n w2 b)
  note p = setup_projections [OF 1(10)]
  from loop_model [OF 1(11) p(4)] assms(2) show ?thesis by auto
qed

subsection \<open>Checkpoint on improvement\<close>

text \<open>
  Claim C1, as the code has it. In a run that ends without an exception, epoch \<open>i\<close> is
  checkpointed exactly when its validation loss is strictly less than positive infinity
  and than every validation loss of the preceding epochs that is not NaN (a NaN loss
  never compares less, so its epoch is not checkpointed and later comparisons pass over
  it). Only epochs of the run are checkpointed. When some epoch was checkpointed,
  \<^verbatim>\<open>model.pt\<close> holds the bytes scripted from the state of the last such epoch, and the
  validation loss of that epoch is less than or equal to every validation loss of the
  run that is not NaN.
\<close>

theorem checkpoint_on_improvement:
  assumes "main E a fs0 s0 = (None, w)" and "vs = val_losses (trace w)"
  shows "(\<forall>i<length vs. i \<in> set (saved_epochs (trace w)) \<longleftrightarrow>
            float_lt (vs ! i) PosInf \<and> (\<forall>u\<in>set (take i vs). isnan u \<or> float_lt (vs ! i) u)) \<and>
         (\<forall>i\<in>set (saved_epochs (trace w)). i < length vs) \<and>
         (checkpoints (trace w) \<noteq> [] \<longrightarrow>
            (\<exists>bytes. jit_script E (snd (last (checkpoints (trace w)))) = Inr bytes \<and>
               fs w (out_dir E a @ [''model.pt'']) = Some (File bytes)) \<and>
            (\<forall>u\<in>set vs. isnan u \<or> float_le (vs ! fst (last (checkpoints (trace w)))) u))"
proof (intro conjI impI)
  have s: "saved_epochs (trace w) = improving vs" using main_saved [OF assms(1)] assms(2) by simp
  show "\<forall>i<length vs. i \<in> set (saved_epochs (trace w)) \<longleftrightarrow>
            float_lt (vs ! i) PosInf \<and> (\<forall>u\<in>set (take i vs). isnan u \<or> float_lt (vs ! i) u)"
    unfolding s by (simp add: improving_iff)
  show "\<forall>i\<in>set (saved_epochs (trace w)). i < length vs"
    unfolding s by (simp add: improving_lt)
  assume ne: "checkpoints (trace w) \<noteq> []"
  show "\<exists>bytes. jit_script E (snd (last (checkpoints (trace w)))) = Inr bytes \<and>
               fs w (out_dir E a @ [''model.pt'']) = Some (File bytes)"
    using main_model [OF assms(1) ne] .
  from ne have "saved_epochs (trace w) \<noteq> []" by (simp add: saved_epochs_def)
  then have i: "improving vs \<noteq> []" using s by simp
  have "fst (last (checkpoints (trace w))) = last (saved_epochs (trace w))"
    using ne by (simp add: saved_epochs_def last_map)
  then have "vs ! fst (last (checkpoints (trace w))) = best_of vs"
    using best_of_last_improving [OF i] s by simp
  moreover have "\<forall>u\<in>set vs. isnan u \<or> float_le (best_of vs) u"
    using best_of_is_minimum [of vs] by (auto simp: is_minimum_def list_all_iff)
  ultimately show "\<forall>u\<in>set vs. isnan u \<or> float_le (vs ! fst (last (checkpoints (trace w)))) u"
    by simp
qed

text \<open>
  A run of two epochs with the validation losses NaN and 1: epoch 1 is checkpointed
  although \<^verbatim>\<open>1 < nan\<close> is false, so its loss is not strictly less than every loss before.
\<close>

lemma demo_nan_run:
  "fst (main (demo_env 2 (Finite 3) [NaN, Finite 1]) (demo_args False) demo_fs 0) = None"
  "val_losses (trace (snd (main (demo_env 2 (Finite 3) [NaN, Finite 1]) (demo_args False) demo_fs 0))) = [NaN, Finite 1]"
  "saved_epochs (trace (snd (main (demo_env 2 (Finite 3) [NaN, Finite 1]) (demo_args False) demo_fs 0))) = [1]"
  by code_simp+

theorem checkpoint_claim_counterexample:
  "fst (main (demo_env 2 (Finite 3) [NaN, Finite 1]) (demo_args False) demo_fs 0) = None \<and>
   val_losses (trace (snd (main (demo_env 2 (Finite 3) [NaN, Finite 1]) (demo_args False) demo_fs 0)))
     = [NaN, Finite 1] \<and>
   1 \<in> set (saved_epochs (trace (snd (main (demo_env 2 (Finite 3) [NaN, Finite 1]) (demo_args False) demo_fs 0)))) \<and>
   \<not> claimed_checkpoint
       (val_losses (trace (snd (main (demo_env 2 (Finite 3) [NaN, Finite 1]) (demo_args False) demo_fs 0)))) 1"
  by (simp add: demo_nan_run claimed_checkpoint_def)

theorem checkpoint_on_improvement_witness:
  "main (demo_env 2 (Finite 3) [NaN, Finite 1]) (demo_args False) demo_fs 0 =
     (None, snd (main (demo_env 2 (Finite 3) [NaN, Finite 1]) (demo_args False) demo_fs 0)) \<and>
   1 \<in> set (saved_epochs (trace (snd (main (demo_env 2 (Finite 3) [NaN, Finite 1]) (demo_args False) demo_fs 0)))) \<and>
   0 \<notin> set (saved_epochs (trace (snd (main (demo_env 2 (Finite 3) [NaN, Finite 1]) (demo_args False) demo_fs 0)))) \<and>
   fs (snd (main (demo_env 2 (Finite 3) [NaN, Finite 1]) (demo_args False) demo_fs 0)) [''out'', ''model.pt'']
     = Some (File ''mm'')"
proof -
  let ?w = "snd (main (demo_env 2 (Finite 3) [NaN, Finite 1]) (demo_args False) demo_fs 0)"
  have run: "main (demo_env 2 (Finite 3) [NaN, Finite 1]) (demo_args False) demo_fs 0 = (None, ?w)"
    using demo_nan_run(1) by (simp add: prod_eq_iff)
  have cp: "checkpoints (trace ?w) = [(1, 2)]" by code_simp
  note t = checkpoint_on_improvement [OF run demo_nan_run(2) [symmetric]]
  from t have 1: "1 \<in> set (saved_epochs (trace ?w))" by simp
  from t have 0: "0 \<notin> set (saved_epochs (trace ?w))" by simp
  from t cp have "\<exists>bytes. jit_script (demo_env 2 (Finite 3) [NaN, Finite 1]) 2 = Inr bytes \<and>
     fs ?w (out_dir (demo_env 2 (Finite 3) [NaN, Finite 1]) (demo_args False) @ [''model.pt'']) = Some (File bytes)"
    by simp
  then have m: "fs ?w [''out'', ''model.pt''] = Some (File ''mm'')"
    by (auto simp: demo_env_def demo_args_def out_dir_def numeral_2_eq_2)
  from run 1 0 m show ?thesis by simp
qed

subsection \<open>A loop ended by an exception\<close>

lemma epoch_loop_stop:
  "epoch_loop E out is b w = (Some e, b', w') \<Longrightarrow>
   \<exists>xs i ys b1 w1. is = xs @ i # ys \<and> epoch_loop E out xs b w = (None, b1, w1) \<and>
     epoch E out i b1 w1 = (Some e, b', w')"
proof (induction "is" arbitrary: b w)
  case Nil
  then show ?case by simp
next
  case (Cons j rest)
  obtain r1 b1 w1 where ep: "epoch E out j b w = (r1, b1, w1)" by (cases "epoch E out j b w")
  show ?case
  proof (cases r1)
    case None
    with Cons.prems ep have "epoch_loop E out rest b1 w1 = (Some e, b', w')" by simp
    from Cons.IH [OF this] obtain xs i ys b2 w2 where
      x: "rest = xs @ i # ys" "epoch_loop E out xs b1 w1 = (None, b2, w2)"
         "epoch E out i b2 w2 = (Some e, b', w')" by blast
    from x(2) ep None have "epoch_loop E out (j # xs) b w = (None, b2, w2)" by simp
    moreover from x(1) have "j # rest = (j # xs) @ i # ys" by simp
    ultimately show ?thesis using x(3) by blast
  next
    case (Some e1)
    with Cons.prems ep have "epoch E out j b w = (Some e, b', w')" by simp
    moreover have "epoch_loop E out [] b w = (None, b, w)" by simp
    moreover have "j # rest = [] @ j # rest" by simp
    ultimately show ?thesis by blast
  qed
qed

lemma upt_split:
  assumes "[0..<n] = xs @ i # ys"
  shows "xs = [0..<i] \<and> i < n"
proof -
  have "length [0..<n] = length (xs @ i # ys)" using assms by (rule arg_cong)
  then have len: "length xs < n" by simp
  from assms have "[0..<n] ! length xs = i" by (simp add: nth_append)
  with len have i: "i = length xs" by simp
  from assms have "take (length xs) [0..<n] = xs" by simp
  with len have "xs = [0..<length xs]" by (simp add: take_upt)
  with i len show ?thesis by simp
qed

lemma epoch_stopped:
  assumes "epoch E out i b w = (Some e, b', w')"
  shows "checkpoints (trace w') = checkpoints (trace w) \<and>
    (passes (trace w') = passes (trace w) \<and> val_losses (trace w') = val_losses (trace w) \<or>
     passes (trace w') = passes (trace w) @ [(TrainPass, i)] \<and>
       val_losses (trace w') = val_losses (trace w) \<or>
     (\<exists>v. passes (trace w') = passes (trace w) @ [(TrainPass, i), (TestPass, i)] \<and>
       val_losses (trace w') = val_losses (trace w) @ [v]))"
  using assms
  by (auto simp: epoch_def Let_def proj_defs map_filter_append List.map_filter_simps
      split: sum.splits prod.splits if_splits)

lemma setup_prefix_empty:
  "val_losses (MkdirDone p # CopyDone q q' # map Called cs) = []"
  "checkpoints (MkdirDone p # CopyDone q q' # map Called cs) = []"
  "passes (MkdirDone p # CopyDone q q' # map Called cs) = []"
  using called_projections [of cs] by (simp_all add: proj_defs List.map_filter_simps)

text \<open>
  A loop over the epochs below \<open>n\<close> that an exception ends has completed the epochs
  below some \<open>k < n\<close> and stopped inside epoch \<open>k\<close>.
\<close>

lemma loop_stopped:
  assumes "epoch_loop E out [0..<n] b0 w = (Some e, b, w')"
  obtains k b1 w1 where "k < n" "epoch_loop E out [0..<k] b0 w = (None, b1, w1)"
    "epoch E out k b1 w1 = (Some e, b, w')"
proof -
  from epoch_loop_stop [OF assms] obtain xs i ys b1 w1 where
    x: "[0..<n] = xs @ i # ys" "epoch_loop E out xs b0 w = (None, b1, w1)"
       "epoch E out i b1 w1 = (Some e, b, w')" by blast
  from upt_split [OF x(1)] x(2,3) that show ?thesis by blast
qed

lemma main_saved_any:
  assumes "main E a fs0 s0 = (r, w)"
  shows "saved_epochs (trace w) = improving (val_losses (trace w)) \<or>
    (r \<noteq> None \<and> saved_epochs (trace w) = improving (butlast (val_losses (trace w))))"
  using assms
proof (cases rule: main_any)
  case refused
  then show ?thesis by (simp add: proj_defs improving_def)
next
  case (mkdir_failed e fs1)
  then show ?thesis by (simp add: proj_defs improving_def)
next
  case (made fs1)
  then show ?thesis by (simp add: proj_defs improving_def List.map_filter_simps)
next
  case (copied fs1 bytes cfg cs)
  from copied(6) have "val_losses (trace w) = []" "checkpoints (trace w) = []"
    by (simp_all add: setup_prefix_empty)
  then show ?thesis by (simp add: saved_epochs_def improving_def)
next
  case (range_failed fs1 bytes cfg cs ne)
  note p = setup_projections [OF range_failed(8)]
  from p(1,4) show ?thesis by (simp add: saved_epochs_def improving_def)
next
  case (looped fs1 bytes cfg cs ne n w2 b)
  note p = setup_projections [OF looped(8)]
  show ?thesis
  proof (cases r)
    case None
    with assms have "main E a fs0 s0 = (None, w)" by simp
    from main_saved [OF this] show ?thesis by simp
  next
    case (Some e)
    with looped(9) obtain k b1 w1 where
      l: "epoch_loop E (out_dir E a) [0..<k] PosInf w2 = (None, b1, w1)"
      and s: "epoch E (out_dir E a) k b1 w1 = (Some e, b, w)"
      by (auto elim: loop_stopped)
    have 1: "saved_epochs (trace w1) = improving (val_losses (trace w1))"
      using loop_saved [OF l p(1,2,3,4)] .
    from epoch_stopped [OF s] have c: "saved_epochs (trace w) = saved_epochs (trace w1)"
      and v: "val_losses (trace w) = val_losses (trace w1) \<or>
              (\<exists>v. val_losses (trace w) = val_losses (trace w1) @ [v])"
      by (auto simp: saved_epochs_def)
    from v show ?thesis
    proof
      assume "val_losses (trace w) = val_losses (trace w1)"
      with 1 c show ?thesis by simp
    next
      assume "\<exists>v. val_losses (trace w) = val_losses (trace w1) @ [v]"
      then have "butlast (val_losses (trace w)) = val_losses (trace w1)" by auto
      with 1 c Some show ?thesis by simp
    qed
  qed
qed

lemma improving_butlast:
  assumes "Suc i < length vs"
  shows "i \<in> set (improving (butlast vs)) \<longleftrightarrow> i \<in> set (improving vs)"
proof -
  from assms have "take i (butlast vs) = take i vs" by (simp add: take_butlast)
  moreover from assms have "butlast vs ! i = vs ! i" by (simp add: nth_butlast)
  moreover from assms have "i < length vs - Suc 0" by arith
  ultimately show ?thesis using assms by (simp add: improving_iff)
qed

subsection \<open>The checkpoints depend on the validation losses only\<close>

text \<open>
  Claim C2, as the code has it. Take two runs whose epochs return the same sequence of
  validation losses, whatever their environments, arguments, files and training losses
  are. When both end without an exception they checkpoint at the same epochs. In any
  case they agree on every epoch but the last one that returned a validation loss: an
  exception can end a run after the loss of an epoch was returned and before its
  checkpoint was saved.
\<close>

theorem checkpoints_depend_on_validation_losses_only:
  assumes "main E1 a1 fsA sA = (r1, w1)" and "main E2 a2 fsB sB = (r2, w2)"
    and "val_losses (trace w1) = val_losses (trace w2)"
  shows "(r1 = None \<and> r2 = None \<longrightarrow> saved_epochs (trace w1) = saved_epochs (trace w2)) \<and>
    (\<forall>i. Suc i < length (val_losses (trace w1)) \<longrightarrow>
       (i \<in> set (saved_epochs (trace w1)) \<longleftrightarrow> i \<in> set (saved_epochs (trace w2))))"
proof (intro conjI impI allI)
  assume "r1 = None \<and> r2 = None"
  with main_saved_any [OF assms(1)] main_saved_any [OF assms(2)] assms(3)
  show "saved_epochs (trace w1) = saved_epochs (trace w2)" by simp
next
  fix i
  assume i: "Suc i < length (val_losses (trace w1))"
  have "i \<in> set (saved_epochs (trace w)) \<longleftrightarrow> i \<in> set (improving (val_losses (trace w1)))"
    if "saved_epochs (trace w) = improving (val_losses (trace w1)) \<or>
        saved_epochs (trace w) = improving (butlast (val_losses (trace w1)))" for w :: "'x world"
    using that improving_butlast [OF i] by auto
  from this [of w1] this [of w2] main_saved_any [OF assms(1)] main_saved_any [OF assms(2)] assms(3)
  show "i \<in> set (saved_epochs (trace w1)) \<longleftrightarrow> i \<in> set (saved_epochs (trace w2))" by auto
qed

text \<open>
  Two runs with the validation losses 2 and 1: one completes and checkpoints at epochs
  0 and 1; in the other \<^verbatim>\<open>torch.jit.script\<close> raises in epoch 1, after the loss was
  returned, and only epoch 0 is checkpointed.
\<close>

lemma demo_run_A:
  "fst (main (demo_env 2 (Finite 3) [Finite 2, Finite 1]) (demo_args False) demo_fs 0) = None"
  "val_losses (trace (snd (main (demo_env 2 (Finite 3) [Finite 2, Finite 1]) (demo_args False) demo_fs 0)))
     = [Finite 2, Finite 1]"
  "saved_epochs (trace (snd (main (demo_env 2 (Finite 3) [Finite 2, Finite 1]) (demo_args False) demo_fs 0)))
     = [0, 1]"
  by code_simp+

lemma demo_run_unsaved:
  "val_losses (trace (snd (main (demo_env_unsaved 2 (Finite 3) [Finite 2, Finite 1] 2) (demo_args False) demo_fs 0)))
     = [Finite 2, Finite 1]"
  "saved_epochs (trace (snd (main (demo_env_unsaved 2 (Finite 3) [Finite 2, Finite 1] 2) (demo_args False) demo_fs 0)))
     = [0]"
  by code_simp+

theorem checkpoints_of_interrupted_run_counterexample:
  "val_losses (trace (snd (main (demo_env 2 (Finite 3) [Finite 2, Finite 1]) (demo_args False) demo_fs 0)))
     = [Finite 2, Finite 1] \<and>
   val_losses (trace (snd (main (demo_env_unsaved 2 (Finite 3) [Finite 2, Finite 1] 2) (demo_args False) demo_fs 0)))
     = [Finite 2, Finite 1] \<and>
   saved_epochs (trace (snd (main (demo_env 2 (Finite 3) [Finite 2, Finite 1]) (demo_args False) demo_fs 0)))
     = [0, 1] \<and>
   saved_epochs (trace (snd (main (demo_env_unsaved 2 (Finite 3) [Finite 2, Finite 1] 2) (demo_args False) demo_fs 0)))
     = [0]"
  by (simp only: demo_run_A demo_run_unsaved)

lemma demo_run_B:
  "fst (main (demo_env 2 (Finite 7) [Finite 2, Finite 1]) (demo_args True) demo_fs 0) = None"
  "val_losses (trace (snd (main (demo_env 2 (Finite 7) [Finite 2, Finite 1]) (demo_args True) demo_fs 0)))
     = [Finite 2, Finite 1]"
  by code_simp+

theorem checkpoints_depend_on_validation_losses_only_witness:
  "main (demo_env 2 (Finite 3) [Finite 2, Finite 1]) (demo_args False) demo_fs 0 =
     (None, snd (main (demo_env 2 (Finite 3) [Finite 2, Finite 1]) (demo_args False) demo_fs 0)) \<and>
   main (demo_env 2 (Finite 7) [Finite 2, Finite 1]) (demo_args True) demo_fs 0 =
     (None, snd (main (demo_env 2 (Finite 7) [Finite 2, Finite 1]) (demo_args True) demo_fs 0)) \<and>
   train_losses (trace (snd (main (demo_env 2 (Finite 3) [Finite 2, Finite 1]) (demo_args False) demo_fs 0))) \<noteq>
   train_losses (trace (snd (main (demo_env 2 (Finite 7) [Finite 2, Finite 1]) (demo_args True) demo_fs 0))) \<and>
   saved_epochs (trace (snd (main (demo_env 2 (Finite 3) [Finite 2, Finite 1]) (demo_args False) demo_fs 0))) =
   saved_epochs (trace (snd (main (demo_env 2 (Finite 7) [Finite 2, Finite 1]) (demo_args True) demo_fs 0)))"
proof -
  let ?w1 = "snd (main (demo_env 2 (Finite 3) [Finite 2, Finite 1]) (demo_args False) demo_fs 0)"
  let ?w2 = "snd (main (demo_env 2 (Finite 7) [Finite 2, Finite 1]) (demo_args True) demo_fs 0)"
  have r1: "main (demo_env 2 (Finite 3) [Finite 2, Finite 1]) (demo_args False) demo_fs 0 = (None, ?w1)"
    using demo_run_A(1) by (simp add: prod_eq_iff)
  have r2: "main (demo_env 2 (Finite 7) [Finite 2, Finite 1]) (demo_args True) demo_fs 0 = (None, ?w2)"
    using demo_run_B(1) by (simp add: prod_eq_iff)
  have v: "val_losses (trace ?w1) = val_losses (trace ?w2)"
    using demo_run_A(2) demo_run_B(2) by simp
  have t: "train_losses (trace ?w1) \<noteq> train_losses (trace ?w2)" by code_simp
  from checkpoints_depend_on_validation_losses_only [OF r1 r2 v]
  have "saved_epochs (trace ?w1) = saved_epochs (trace ?w2)" by blast
  with r1 r2 t show ?thesis by simp
qed

subsection \<open>Number and order of the passes\<close>

lemma main_passes_any:
  assumes "main E a fs0 s0 = (r, w)"
  shows "passes (trace w) = [] \<or>
    (\<exists>bytes cfg v n k.
       fs0 (config a) = Some (File bytes) \<and> tomllib_loads E bytes = Some cfg \<and>
       getitem2 cfg ''training'' ''num_epochs'' = Inr v \<and> int_value v = Some n \<and> k \<le> nat n \<and>
       (r = None \<longrightarrow> k = nat n) \<and>
       (passes (trace w) = concat (map (\<lambda>i. [(TrainPass, i), (TestPass, i)]) [0..<k]) \<or>
        k < nat n \<and>
        passes (trace w) = concat (map (\<lambda>i. [(TrainPass, i), (TestPass, i)]) [0..<k]) @ [(TrainPass, k)]))"
  using assms
proof (cases rule: main_any)
  case refused
  then show ?thesis by (simp add: proj_defs)
next
  case (mkdir_failed e fs1)
  then show ?thesis by (simp add: proj_defs)
next
  case (made fs1)
  then show ?thesis by (simp add: proj_defs List.map_filter_simps)
next
  case (copied fs1 bytes cfg cs)
  from copied(6) show ?thesis by (simp add: setup_prefix_empty)
next
  case (range_failed fs1 bytes cfg cs ne)
  from setup_projections(5) [OF range_failed(8)] show ?thesis by simp
next
  case (looped fs1 bytes cfg cs ne n w2 b)
  note p = setup_projections [OF looped(8)]
  let ?pair = "\<lambda>i. [(TrainPass, i), (TestPass, i)]"
  have "\<exists>k\<le>nat n. (r = None \<longrightarrow> k = nat n) \<and>
      (passes (trace w) = concat (map ?pair [0..<k]) \<or>
       k < nat n \<and> passes (trace w) = concat (map ?pair [0..<k]) @ [(TrainPass, k)])"
  proof (cases r)
    case None
    with looped(9) have "epoch_loop E (out_dir E a) [0..<nat n] PosInf w2 = (None, b, w)" by simp
    from loop_passes [OF this] p(5) have "passes (trace w) = concat (map ?pair [0..<nat n])" by simp
    then show ?thesis by blast
  next
    case (Some e)
    with looped(9) obtain k b1 w1 where k: "k < nat n"
      and l: "epoch_loop E (out_dir E a) [0..<k] PosInf w2 = (None, b1, w1)"
      and s: "epoch E (out_dir E a) k b1 w1 = (Some e, b, w)"
      by (auto elim: loop_stopped)
    from loop_passes [OF l] p(5) have 1: "passes (trace w1) = concat (map ?pair [0..<k])" by simp
    from epoch_stopped [OF s] have "passes (trace w) = passes (trace w1) \<or>
      passes (trace w) = passes (trace w1) @ [(TrainPass, k)] \<or>
      passes (trace w) = passes (trace w1) @ [(TrainPass, k), (TestPass, k)]" by blast
    then consider (none) "passes (trace w) = concat (map ?pair [0..<k])"
      | (one) "passes (trace w) = concat (map ?pair [0..<k]) @ [(TrainPass, k)]"
      | (both) "passes (trace w) = concat (map ?pair [0..<Suc k])"
      using 1 by auto
    then show ?thesis
    proof cases
      case none
      with k Some show ?thesis by (intro exI [of _ k]) simp
    next
      case one
      with k Some show ?thesis by (intro exI [of _ k]) simp
    next
      case both
      with k Some show ?thesis by (intro exI [of _ "Suc k"]) simp
    qed
  qed
  with looped(3,4,5,6) show ?thesis by blast
qed

text \<open>
  Claim C3, as the code has it. Let \<open>n\<close> be the integer value of
  \<^verbatim>\<open>config["training"]["num_epochs"]\<close> read from the configuration file. Whatever way a run
  ends, the loop has run the epochs \<open>0, 1, ...\<close> in order, at most \<open>max n 0\<close> of them, and
  in every epoch it started the training pass came first and the evaluation pass, where
  it was reached, second. In a run that ends without an exception the loop has run
  exactly the epochs \<open>0, ..., n - 1\<close>, that is \<open>max n 0\<close> iterations (none when \<open>n\<close> is
  negative), each with its training pass and then its evaluation pass.
\<close>

theorem epochs_and_pass_order:
  assumes "main E a fs0 s0 = (r, w)"
  shows "(passes (trace w) = [] \<or>
      (\<exists>bytes cfg v n k.
         fs0 (config a) = Some (File bytes) \<and> tomllib_loads E bytes = Some cfg \<and>
         getitem2 cfg ''training'' ''num_epochs'' = Inr v \<and> int_value v = Some n \<and> k \<le> nat n \<and>
         (passes (trace w) = concat (map (\<lambda>i. [(TrainPass, i), (TestPass, i)]) [0..<k]) \<or>
          k < nat n \<and>
          passes (trace w) =
            concat (map (\<lambda>i. [(TrainPass, i), (TestPass, i)]) [0..<k]) @ [(TrainPass, k)]))) \<and>
    (r = None \<longrightarrow>
      (\<exists>bytes cfg v n.
         fs0 (config a) = Some (File bytes) \<and> tomllib_loads E bytes = Some cfg \<and>
         getitem2 cfg ''training'' ''num_epochs'' = Inr v \<and> int_value v = Some n \<and>
         passes (trace w) = concat (map (\<lambda>i. [(TrainPass, i), (TestPass, i)]) [0..<nat n])))"
proof (intro conjI impI)
  from main_passes_any [OF assms]
  show "passes (trace w) = [] \<or>
      (\<exists>bytes cfg v n k.
         fs0 (config a) = Some (File bytes) \<and> tomllib_loads E bytes = Some cfg \<and>
         getitem2 cfg ''training'' ''num_epochs'' = Inr v \<and> int_value v = Some n \<and> k \<le> nat n \<and>
         (passes (trace w) = concat (map (\<lambda>i. [(TrainPass, i), (TestPass, i)]) [0..<k]) \<or>
          k < nat n \<and>
          passes (trace w) =
            concat (map (\<lambda>i. [(TrainPass, i), (TestPass, i)]) [0..<k]) @ [(TrainPass, k)]))"
    by blast
next
  assume "r = None"
  with assms have "main E a fs0 s0 = (None, w)" by simp
  then show "\<exists>bytes cfg v n.
         fs0 (config a) = Some (File bytes) \<and> tomllib_loads E bytes = Some cfg \<and>
         getitem2 cfg ''training'' ''num_epochs'' = Inr v \<and> int_value v = Some n \<and>
         passes (trace w) = concat (map (\<lambda>i. [(TrainPass, i), (TestPass, i)]) [0..<nat n])"
  proof (cases rule: main_None)
    case (1 fs1 bytes cfg bs ne d m l opt n w2 b)
    note p = setup_projections [OF 1(10)]
    from loop_passes [OF 1(11)] p(5)
    have "passes (trace w) = concat (map (\<lambda>i. [(TrainPass, i), (TestPass, i)]) [0..<nat n])" by simp
    with 1(3,4,6,8) show ?thesis by blast
  qed
qed

text \<open>
  With \<^verbatim>\<open>num_epochs = -1\<close> the run ends normally after no iteration at all: the number of
  iterations is not \<^verbatim>\<open>num_epochs\<close>. With \<^verbatim>\<open>num_epochs = 2\<close> and an evaluation pass that
  raises in epoch 1, the loop has not run two iterations either.
\<close>

lemma demo_negative_run:
  "fst (main (demo_env (- 1) (Finite 3) []) (demo_args False) demo_fs 0) = None"
  "train_losses (trace (snd (main (demo_env (- 1) (Finite 3) []) (demo_args False) demo_fs 0))) = []"
  by code_simp+

lemma demo_interrupted_run:
  "fst (main (demo_env 2 (Finite 3) [Finite 2]) (demo_args False) demo_fs 0)
     = Some (ExternalError ''no data'')"
  "passes (trace (snd (main (demo_env 2 (Finite 3) [Finite 2]) (demo_args False) demo_fs 0)))
     = [(TrainPass, 0), (TestPass, 0), (TrainPass, 1)]"
  by code_simp+

theorem iteration_count_counterexample:
  "fst (main (demo_env (- 1) (Finite 3) []) (demo_args False) demo_fs 0) = None \<and>
   demo_fs (config (demo_args False)) = Some (File ''cfg'') \<and>
   tomllib_loads (demo_env (- 1) (Finite 3) []) ''cfg'' = Some (demo_cfg (- 1)) \<and>
   getitem2 (demo_cfg (- 1)) ''training'' ''num_epochs'' = Inr (TInt (- 1)) \<and>
   int (length (train_losses (trace (snd (main (demo_env (- 1) (Finite 3) []) (demo_args False) demo_fs 0)))))
     \<noteq> - 1 \<and>
   tomllib_loads (demo_env 2 (Finite 3) [Finite 2]) ''cfg'' = Some (demo_cfg 2) \<and>
   getitem2 (demo_cfg 2) ''training'' ''num_epochs'' = Inr (TInt 2) \<and>
   fst (main (demo_env 2 (Finite 3) [Finite 2]) (demo_args False) demo_fs 0)
     = Some (ExternalError ''no data'') \<and>
   passes (trace (snd (main (demo_env 2 (Finite 3) [Finite 2]) (demo_args False) demo_fs 0)))
     = [(TrainPass, 0), (TestPass, 0), (TrainPass, 1)]"
  by (simp only: demo_negative_run demo_interrupted_run)
    (simp add: demo_fs_def demo_args_def demo_env_def demo_cfg_def getitem2_def getitem_def)

theorem epochs_and_pass_order_witness:
  "main (demo_env 2 (Finite 3) [Finite 2, Finite 1]) (demo_args False) demo_fs 0 =
     (None, snd (main (demo_env 2 (Finite 3) [Finite 2, Finite 1]) (demo_args False) demo_fs 0)) \<and>
   passes (trace (snd (main (demo_env 2 (Finite 3) [Finite 2, Finite 1]) (demo_args False) demo_fs 0))) =
     [(TrainPass, 0), (TestPass, 0), (TrainPass, 1), (TestPass, 1)]"
proof -
  let ?w = "snd (main (demo_env 2 (Finite 3) [Finite 2, Finite 1]) (demo_args False) demo_fs 0)"
  have run: "main (demo_env 2 (Finite 3) [Finite 2, Finite 1]) (demo_args False) demo_fs 0 = (None, ?w)"
    using demo_run_A(1) by (simp add: prod_eq_iff)
  from epochs_and_pass_order [OF run] obtain bytes cfg v n where
    f: "demo_fs (config (demo_args False)) = Some (File bytes)"
    and c: "tomllib_loads (demo_env 2 (Finite 3) [Finite 2, Finite 1]) bytes = Some cfg"
    and g: "getitem2 cfg ''training'' ''num_epochs'' = Inr v" and i: "int_value v = Some n"
    and p: "passes (trace ?w) = concat (map (\<lambda>i. [(TrainPass, i), (TestPass, i)]) [0..<nat n])"
    by blast
  from f have "bytes = ''cfg''" by (simp add: demo_fs_def demo_args_def)
  with c have "cfg = demo_cfg 2" by (simp add: demo_env_def)
  with g have "v = TInt 2" by (simp add: demo_cfg_def getitem2_def getitem_def)
  with i have "n = 2" by (simp add: int_value_def)
  with p have "passes (trace ?w) = [(TrainPass, 0), (TestPass, 0), (TrainPass, 1), (TestPass, 1)]"
    by (simp add: upt_rec)
  with run show ?thesis by simp
qed

lemma setup_prefix_projections:
  "passes (MkdirDone p # CopyDone q q' # map Called cs) = []"
  "rows_written (MkdirDone p # CopyDone q q' # map Called cs) = []"
  using called_projections [of cs] by (simp_all add: proj_defs List.map_filter_simps)

subsection \<open>The training log\<close>




subsection \<open>The invariant of \<^verbatim>\<open>best_loss\<close>\<close>

text \<open>Each completed epoch contributes one validation loss.\<close>

lemma loop_val_losses:
  "epoch_loop E out is b w = (None, b', w') \<Longrightarrow>
   \<exists>vs. length vs = length is \<and> val_losses (trace w') = val_losses (trace w) @ vs"
proof (induction "is" arbitrary: b w)
  case Nil
  then show ?case by simp
next
  case (Cons i rest)
  from Cons.prems obtain b1 w1 where e: "epoch E out i b w = (None, b1, w1)"
    and l: "epoch_loop E out rest b1 w1 = (None, b', w')"
    by (auto split: prod.splits option.splits)
  from epoch_None_trace [OF e] obtain vl where "val_losses (trace w1) = val_losses (trace w) @ [vl]"
    by (auto simp: proj_defs map_filter_append List.map_filter_simps)
  moreover from Cons.IH [OF l] obtain vs where "length vs = length rest"
    "val_losses (trace w') = val_losses (trace w1) @ vs" by blast
  ultimately have "length (vl # vs) = length (i # rest) \<and>
    val_losses (trace w') = val_losses (trace w) @ (vl # vs)" by simp
  then show ?case by blast
qed

text \<open>
  Claim C7, as the code has it. Take a loop of \<open>n\<close> epochs that ends without an
  exception. At the head of the loop after \<open>k \<le> n\<close> completed epochs, \<^verbatim>\<open>best_loss\<close> is the
  minimum of positive infinity and the validation losses of these \<open>k\<close> epochs that are
  not NaN; and the value of \<^verbatim>\<open>best_loss\<close> at any later point is the same or strictly less.
\<close>

theorem best_loss_invariant:
  assumes "epoch_loop E out [0..<n] PosInf w0 = (None, b_n, w_n)"
    and "val_losses (trace w0) = []" and "k \<le> n"
  shows "\<exists>b_k w_k. epoch_loop E out [0..<k] PosInf w0 = (None, b_k, w_k) \<and>
      val_losses (trace w_k) = take k (val_losses (trace w_n)) \<and>
      is_minimum b_k (PosInf # filter (\<lambda>v. \<not> isnan v) (val_losses (trace w_k))) \<and>
      (b_n = b_k \<or> float_lt b_n b_k)"
proof -
  from assms(3) have "[0..<n] = [0..<k] @ [k..<n]"
    using upt_add_eq_append [of 0 k "n - k"] by simp
  with assms(1) obtain b_k w_k where k: "epoch_loop E out [0..<k] PosInf w0 = (None, b_k, w_k)"
    and r: "epoch_loop E out [k..<n] b_k w_k = (None, b_n, w_n)"
    using epoch_loop_prefix_None [of E out "[0..<k]" "[k..<n]" PosInf w0 b_n w_n] by auto
  have bk: "b_k = best_of (val_losses (trace w_k))" using loop_best [OF k assms(2)] .
  have bn: "b_n = best_of (val_losses (trace w_n))" using loop_best [OF assms(1,2)] .
  from loop_val_losses [OF k] assms(2) have len: "length (val_losses (trace w_k)) = k" by auto
  from loop_val_losses [OF r] obtain us where
    us: "val_losses (trace w_n) = val_losses (trace w_k) @ us" by blast
  have 1: "val_losses (trace w_k) = take k (val_losses (trace w_n))" using us len by simp
  have 2: "is_minimum b_k (PosInf # filter (\<lambda>v. \<not> isnan v) (val_losses (trace w_k)))"
    unfolding bk by (rule best_of_is_minimum)
  have 3: "b_n = b_k \<or> float_lt b_n b_k"
    unfolding bk bn us by (rule best_of_append_le)
  from k 1 2 3 show ?thesis by blast
qed

text \<open>
  After one epoch whose validation loss is NaN, \<^verbatim>\<open>best_loss\<close> is still positive infinity,
  which is not among the losses observed.
\<close>

lemma demo_loop_nan:
  "fst (epoch_loop (demo_env 1 (Finite 3) [NaN]) [''out''] [0..<1] PosInf demo_world) = None"
  "fst (snd (epoch_loop (demo_env 1 (Finite 3) [NaN]) [''out''] [0..<1] PosInf demo_world)) = PosInf"
  "val_losses (trace (snd (snd (epoch_loop (demo_env 1 (Finite 3) [NaN]) [''out''] [0..<1] PosInf demo_world))))
     = [NaN]"
  by code_simp+

theorem best_loss_minimum_counterexample:
  "fst (epoch_loop (demo_env 1 (Finite 3) [NaN]) [''out''] [0..<1] PosInf demo_world) = None \<and>
   val_losses (trace (snd (snd (epoch_loop (demo_env 1 (Finite 3) [NaN]) [''out''] [0..<1] PosInf demo_world))))
     = [NaN] \<and>
   \<not> claimed_best
       (fst (snd (epoch_loop (demo_env 1 (Finite 3) [NaN]) [''out''] [0..<1] PosInf demo_world)))
       (val_losses (trace (snd (snd (epoch_loop (demo_env 1 (Finite 3) [NaN]) [''out''] [0..<1] PosInf demo_world)))))"
  by (simp only: demo_loop_nan) (simp add: claimed_best_def is_minimum_def)

lemma demo_loop_3:
  "fst (epoch_loop (demo_env 3 (Finite 3) [Finite 2, NaN, Finite 1]) [''out''] [0..<3] PosInf demo_world) = None"
  "fst (snd (epoch_loop (demo_env 3 (Finite 3) [Finite 2, NaN, Finite 1]) [''out''] [0..<3] PosInf demo_world))
     = Finite 1"
  "val_losses (trace (snd (snd (epoch_loop (demo_env 3 (Finite 3) [Finite 2, NaN, Finite 1]) [''out''] [0..<3] PosInf demo_world))))
     = [Finite 2, NaN, Finite 1]"
  "fst (epoch_loop (demo_env 3 (Finite 3) [Finite 2, NaN, Finite 1]) [''out''] [0..<2] PosInf demo_world) = None"
  "fst (snd (epoch_loop (demo_env 3 (Finite 3) [Finite 2, NaN, Finite 1]) [''out''] [0..<2] PosInf demo_world))
     = Finite 2"
  "val_losses (trace demo_world) = []"
  by code_simp+

theorem best_loss_invariant_witness:
  "epoch_loop (demo_env 3 (Finite 3) [Finite 2, NaN, Finite 1]) [''out''] [0..<3] PosInf demo_world =
     (None, Finite 1,
      snd (snd (epoch_loop (demo_env 3 (Finite 3) [Finite 2, NaN, Finite 1]) [''out''] [0..<3] PosInf demo_world))) \<and>
   val_losses (trace demo_world) = [] \<and> (2::nat) \<le> 3 \<and>
   val_losses (trace (snd (snd (epoch_loop (demo_env 3 (Finite 3) [Finite 2, NaN, Finite 1]) [''out''] [0..<2] PosInf demo_world))))
     = [Finite 2, NaN] \<and>
   is_minimum (Finite 2) [PosInf, Finite 2] \<and> float_lt (Finite 1) (Finite 2)"
proof -
  let ?E = "demo_env 3 (Finite 3) [Finite 2, NaN, Finite 1]"
  let ?w3 = "snd (snd (epoch_loop ?E [''out''] [0..<3] PosInf demo_world))"
  let ?w2 = "snd (snd (epoch_loop ?E [''out''] [0..<2] PosInf demo_world))"
  have r3: "epoch_loop ?E [''out''] [0..<3] PosInf demo_world = (None, Finite 1, ?w3)"
    using demo_loop_3(1,2) by (simp only: prod_eq_iff fst_conv snd_conv)
  have r2: "epoch_loop ?E [''out''] [0..<2] PosInf demo_world = (None, Finite 2, ?w2)"
    using demo_loop_3(4,5) by (simp only: prod_eq_iff fst_conv snd_conv)
  have k: "(2::nat) \<le> 3" by simp
  from best_loss_invariant [OF r3 demo_loop_3(6) k] obtain b_k w_k where
    l: "epoch_loop ?E [''out''] [0..<2] PosInf demo_world = (None, b_k, w_k)"
    and v: "val_losses (trace w_k) = take 2 (val_losses (trace ?w3))"
    and m: "is_minimum b_k (PosInf # filter (\<lambda>v. \<not> isnan v) (val_losses (trace w_k)))"
    and d: "Finite 1 = b_k \<or> float_lt (Finite 1) b_k"
    by blast
  from l r2 have bk: "b_k = Finite 2" and wk: "w_k = ?w2" by simp_all
  from v have v2: "val_losses (trace ?w2) = [Finite 2, NaN]"
    unfolding wk demo_loop_3(3) by simp
  from m have m2: "is_minimum (Finite 2) [PosInf, Finite 2]"
    unfolding bk wk v2 by simp
  from d have d2: "float_lt (Finite 1) (Finite 2)" unfolding bk by simp
  from r3 demo_loop_3(6) k v2 m2 d2 show ?thesis by simp
qed

subsection \<open>The existence check\<close>

lemma main_started:
  assumes "main E a fs0 s0 = (r, w)" and "mkdir (os_fault E) fs0 (out_dir E a) = (None, fs1)"
    and "\<not> (path_exists fs0 (out_dir E a) \<and> \<not> force a)"
  shows "\<exists>tr. trace w = MkdirDone (out_dir E a) # tr"
  using assms(1)
proof (cases rule: main_any)
  case (looped fs1 bytes cfg cs ne n w2 b)
  from epoch_loop_trace_ext [OF looped(9)] looped(8) show ?thesis by auto
qed (use assms in auto)

lemma exists_not_dir: "path_exists F p \<and> \<not> is_dir F p \<longleftrightarrow> p \<noteq> [] \<and> is_file_node (F p)"
proof (cases "F p")
  case None
  then show ?thesis by (simp add: path_exists_def is_dir_def)
next
  case (Some x)
  then show ?thesis by (cases x) (auto simp: path_exists_def is_dir_def)
qed

text \<open>
  Two refusals of the system: a name too long below a missing parent leaves the parent
  created; a dangling link at a path that does not exist for \<^verbatim>\<open>exists()\<close> is refused with
  \<^verbatim>\<open>FileExistsError\<close> and nothing is created.
\<close>

lemma mkdir_leaves_parents:
  "mkdir (\<lambda>q. if q = [''runs'', ''x''] then Some (OSError ''ENAMETOOLONG'') else None)
     Map.empty [''runs'', ''x''] =
   (Some (OSError ''ENAMETOOLONG''), [[''runs''] \<mapsto> Dir])"
  by (simp add: mkdir_def is_dir_def blocked_def ancestors_def upt_rec)

lemma mkdir_dangling_link:
  "\<not> path_exists Map.empty [''out''] \<and>
   mkdir (\<lambda>q. if q = [''out''] then Some FileExistsError else None) Map.empty [''out''] =
   (Some FileExistsError, Map.empty)"
  by (simp add: mkdir_def is_dir_def blocked_def ancestors_def upt_rec path_exists_def)

text \<open>
  Claim C5, as the code has it. When the output path exists and \<^verbatim>\<open>--force\<close> was not given,
  the script raises \<^verbatim>\<open>FileExistsError\<close> and has written nothing. In every other case it
  runs \<^verbatim>\<open>mkdir\<close>, with no recovery and no retry: an exception of \<^verbatim>\<open>mkdir\<close> ends the run
  with the files as \<^verbatim>\<open>mkdir\<close> left them (parents created before the failure stay) and
  nothing else done, and when \<^verbatim>\<open>mkdir\<close> succeeds the run goes on from there. With
  \<^verbatim>\<open>--force\<close> on a path that exists and is not a directory, \<^verbatim>\<open>mkdir\<close> raises
  \<^verbatim>\<open>FileExistsError\<close> with nothing written. So the script ends with \<^verbatim>\<open>FileExistsError\<close>,
  nothing written and nothing recorded, exactly when the check of line 34 fires or
  \<^verbatim>\<open>mkdir\<close> raises this exception before it has created anything.
\<close>

theorem existence_check:
  "(path_exists fs0 (out_dir E a) \<and> \<not> force a \<longrightarrow>
      main E a fs0 s0 = (Some FileExistsError, \<lparr>fs = fs0, st = s0, trace = []\<rparr>)) \<and>
   (\<not> (path_exists fs0 (out_dir E a) \<and> \<not> force a) \<longrightarrow>
      (\<forall>e fs1. mkdir (os_fault E) fs0 (out_dir E a) = (Some e, fs1) \<longrightarrow>
         main E a fs0 s0 = (Some e, \<lparr>fs = fs1, st = s0, trace = []\<rparr>)) \<and>
      (\<forall>fs1. mkdir (os_fault E) fs0 (out_dir E a) = (None, fs1) \<longrightarrow>
         (\<exists>tr. trace (snd (main E a fs0 s0)) = MkdirDone (out_dir E a) # tr))) \<and>
   (force a \<and> path_exists fs0 (out_dir E a) \<and> \<not> is_dir fs0 (out_dir E a) \<longrightarrow>
      main E a fs0 s0 = (Some FileExistsError, \<lparr>fs = fs0, st = s0, trace = []\<rparr>)) \<and>
   (main E a fs0 s0 = (Some FileExistsError, \<lparr>fs = fs0, st = s0, trace = []\<rparr>) \<longleftrightarrow>
      (path_exists fs0 (out_dir E a) \<and> \<not> force a) \<or>
      mkdir (os_fault E) fs0 (out_dir E a) = (Some FileExistsError, fs0))"
proof -
  let ?out = "out_dir E a"
  let ?w0 = "\<lparr>fs = fs0, st = s0, trace = []\<rparr>"
  obtain r w where m: "main E a fs0 s0 = (r, w)" by (cases "main E a fs0 s0")
  have refused: "main E a fs0 s0 = (Some FileExistsError, ?w0)"
    if "path_exists fs0 ?out \<and> \<not> force a"
    using that by (simp add: main_def Let_def)
  have failed: "main E a fs0 s0 = (Some e, \<lparr>fs = fs1, st = s0, trace = []\<rparr>)"
    if "\<not> (path_exists fs0 ?out \<and> \<not> force a)" "mkdir (os_fault E) fs0 ?out = (Some e, fs1)"
    for e fs1
    using that by (auto simp: main_def Let_def)
  have started: "\<exists>tr. trace (snd (main E a fs0 s0)) = MkdirDone ?out # tr"
    if "\<not> (path_exists fs0 ?out \<and> \<not> force a)" "mkdir (os_fault E) fs0 ?out = (None, fs1)"
    for fs1
    using main_started [OF m that(2,1)] m by simp
  have forced: "main E a fs0 s0 = (Some FileExistsError, ?w0)"
    if "force a \<and> path_exists fs0 ?out \<and> \<not> is_dir fs0 ?out"
  proof -
    from that have "\<not> is_dir fs0 ?out" "is_file_node (fs0 ?out)"
      using exists_not_dir [of fs0 ?out] by auto
    then have "mkdir (os_fault E) fs0 ?out = (Some FileExistsError, fs0)" by (rule mkdir_file)
    with that failed [of FileExistsError fs0] show ?thesis by simp
  qed
  have iff: "main E a fs0 s0 = (Some FileExistsError, ?w0) \<longleftrightarrow>
      (path_exists fs0 ?out \<and> \<not> force a) \<or> mkdir (os_fault E) fs0 ?out = (Some FileExistsError, fs0)"
  proof (cases "path_exists fs0 ?out \<and> \<not> force a")
    case True
    with refused show ?thesis by simp
  next
    case False
    obtain rm fs1 where mk: "mkdir (os_fault E) fs0 ?out = (rm, fs1)"
      by (cases "mkdir (os_fault E) fs0 ?out")
    show ?thesis
    proof (cases rm)
      case None
      with started [OF False] mk have "trace (snd (main E a fs0 s0)) \<noteq> []" by auto
      then have "main E a fs0 s0 \<noteq> (Some FileExistsError, ?w0)" by auto
      with False mk None show ?thesis by simp
    next
      case (Some e)
      with failed [OF False] mk
      have "main E a fs0 s0 = (Some e, \<lparr>fs = fs1, st = s0, trace = []\<rparr>)" by simp
      with False mk Some show ?thesis by auto
    qed
  qed
  from refused failed started forced iff show ?thesis by blast
qed

text \<open>
  With \<^verbatim>\<open>--force\<close> and a regular file at the output path, the script ends with
  \<^verbatim>\<open>FileExistsError\<close> and writes nothing, although \<^verbatim>\<open>--force\<close> was given.
\<close>

theorem existence_check_counterexample:
  "main (demo_env 2 (Finite 3) [Finite 2, Finite 1]) (demo_args True) demo_fs_file 0 =
     (Some FileExistsError, \<lparr>fs = demo_fs_file, st = 0, trace = []\<rparr>) \<and>
   force (demo_args True)"
  by (simp add: main_def Let_def out_dir_def demo_args_def demo_fs_file_def path_exists_def
      mkdir_def is_dir_def)

theorem existence_check_witness:
  "path_exists demo_fs_file (out_dir (demo_env 2 (Finite 3) [Finite 2, Finite 1]) (demo_args True)) \<and>
   force (demo_args True) \<and>
   \<not> is_dir demo_fs_file (out_dir (demo_env 2 (Finite 3) [Finite 2, Finite 1]) (demo_args True)) \<and>
   main (demo_env 2 (Finite 3) [Finite 2, Finite 1]) (demo_args True) demo_fs_file 0
     = (Some FileExistsError, \<lparr>fs = demo_fs_file, st = 0, trace = []\<rparr>)"
proof -
  let ?E = "demo_env 2 (Finite 3) [Finite 2, Finite 1]"
  have p: "path_exists demo_fs_file (out_dir ?E (demo_args True))"
    and f: "force (demo_args True)"
    and d: "\<not> is_dir demo_fs_file (out_dir ?E (demo_args True))"
    by (simp_all add: out_dir_def demo_args_def demo_fs_file_def path_exists_def is_dir_def)
  from existence_check [of demo_fs_file ?E "demo_args True" 0] p f d
  have "main ?E (demo_args True) demo_fs_file 0
     = (Some FileExistsError, \<lparr>fs = demo_fs_file, st = 0, trace = []\<rparr>)"
    by blast
  with p f d show ?thesis by simp
qed

subsection \<open>The datasets\<close>

lemma bindE_lift:
  "bindE (lift v) f w = (case v of Inl e \<Rightarrow> (Inl e, w) | Inr x \<Rightarrow> f x w)"
  by (simp add: bindE_def lift_def split: sum.splits)

lemma bindE_call:
  "bindE (call E c) f w =
     (case construct E c (st w) of
        Inl e \<Rightarrow> (Inl e, w\<lparr>trace := trace w @ [Called c]\<rparr>)
      | Inr s \<Rightarrow> f () (w\<lparr>trace := trace w @ [Called c], st := s\<rparr>))"
  by (simp add: bindE_def call_def Let_def split: sum.splits)

lemma build_datasets:
  assumes "build E a cfg w = (r, w')"
  shows "datasets (trace w') = datasets (trace w) \<or>
    (\<exists>d. getitem cfg ''data'' = Inr d \<and>
       (datasets (trace w') = datasets (trace w) @ [(train_data a, d)] \<or>
        datasets (trace w') = datasets (trace w) @ [(train_data a, d), (val_data a, d)]))"
  using assms unfolding build_def bindE_lift bindE_call
  by (auto simp: lift_def datasets_def map_filter_append List.map_filter_simps split: sum.splits)

lemma configure_datasets:
  assumes "configure E a out w = (r, w')"
  shows "datasets (trace w') = datasets (trace w) \<or>
    (\<exists>bytes cfg d. read_file (fs w) (config a) = Inr bytes \<and> tomllib_loads E bytes = Some cfg \<and>
       getitem cfg ''data'' = Inr d \<and>
       (datasets (trace w') = datasets (trace w) @ [(train_data a, d)] \<or>
        datasets (trace w') = datasets (trace w) @ [(train_data a, d), (val_data a, d)]))"
proof -
  obtain r1 w1 where l: "load_config E a w = (r1, w1)" by (cases "load_config E a w")
  have w1: "w1 = w" using load_config_same [OF l] .
  show ?thesis
  proof (cases r1)
    case (Inl e)
    with assms l w1 show ?thesis by (simp add: configure_def bindE_def)
  next
    case (Inr cfg)
    from load_config_Inr l Inr w1 obtain bytes where
      rd: "read_file (fs w) (config a) = Inr bytes" "tomllib_loads E bytes = Some cfg" by blast
    obtain r2 w2 where c: "copy_config a out w = (r2, w2)" by (cases "copy_config a out w")
    show ?thesis
    proof (cases r2)
      case (Inl e)
      with assms l w1 Inr c copy_config_Inl [of a out w e w2] show ?thesis
        by (simp add: configure_def bindE_def)
    next
      case cp: (Inr u)
      from copy_config_Inr [of a out w u w2] c cp
      have "trace w2 = trace w @ [CopyDone (config a) (out @ [''config.toml''])]" by auto
      then have 2: "datasets (trace w2) = datasets (trace w)"
        by (simp add: datasets_def map_filter_append List.map_filter_simps)
      from assms l w1 Inr c cp have "build E a cfg w2 = (r, w')"
        by (simp add: configure_def bindE_def)
      from build_datasets [OF this] 2 rd show ?thesis by auto
    qed
  qed
qed

lemma epoch_datasets: "epoch E out i b w = (r, b', w') \<Longrightarrow> datasets (trace w') = datasets (trace w)"
  by (auto simp: epoch_def Let_def datasets_def map_filter_append List.map_filter_simps
      split: sum.splits prod.splits if_splits)

lemma epoch_loop_datasets:
  "epoch_loop E out is b w = (r, b', w') \<Longrightarrow> datasets (trace w') = datasets (trace w)"
proof (induction "is" arbitrary: b w)
  case Nil
  then show ?case by simp
next
  case (Cons i rest)
  obtain r1 b1 w1 where e: "epoch E out i b w = (r1, b1, w1)" by (cases "epoch E out i b w")
  note d = epoch_datasets [OF e]
  show ?case
  proof (cases r1)
    case None
    with Cons.prems e have "epoch_loop E out rest b1 w1 = (r, b', w')" by simp
    from Cons.IH [OF this] d show ?thesis by simp
  next
    case (Some x)
    with Cons.prems e d show ?thesis by simp
  qed
qed

text \<open>
  Claim C6. The constructions of \<^verbatim>\<open>PointCloudDataset\<close> in a run are, in this order, the
  training dataset on \<^verbatim>\<open>train_data\<close> and the validation dataset on \<^verbatim>\<open>val_data\<close>, both with
  the same section \<^verbatim>\<open>config["data"]\<close> of the configuration read from the configuration
  file; a run that ends early may have constructed only the first or none, and a run
  that ends without an exception has constructed both.
\<close>

theorem paired_datasets:
  assumes "main E a fs0 s0 = (r, w)"
  shows "(datasets (trace w) = [] \<or>
      (\<exists>bytes cfg d. fs0 (config a) = Some (File bytes) \<and> tomllib_loads E bytes = Some cfg \<and>
         getitem cfg ''data'' = Inr d \<and>
         (datasets (trace w) = [(train_data a, d)] \<or>
          datasets (trace w) = [(train_data a, d), (val_data a, d)]))) \<and>
    (r = None \<longrightarrow> length (datasets (trace w)) = 2)"
proof -
  let ?w1 = "\<lparr>fs = fs0, st = s0, trace = []\<rparr>"
  have after_configure: "datasets (trace w1) = [] \<or>
      (\<exists>bytes cfg d. fs0 (config a) = Some (File bytes) \<and> tomllib_loads E bytes = Some cfg \<and>
         getitem cfg ''data'' = Inr d \<and>
         (datasets (trace w1) = [(train_data a, d)] \<or>
          datasets (trace w1) = [(train_data a, d), (val_data a, d)]))"
    if mk: "mkdir (os_fault E) fs0 (out_dir E a) = (None, fs1)"
      and c: "configure E a (out_dir E a) \<lparr>fs = fs1, st = s0, trace = [MkdirDone (out_dir E a)]\<rparr> = (rc, w1)"
    for fs1 rc w1
  proof -
    have "datasets (trace \<lparr>fs = fs1, st = s0, trace = [MkdirDone (out_dir E a)]\<rparr>) = []"
      by (simp add: datasets_def List.map_filter_simps)
    with configure_datasets [OF c] have "datasets (trace w1) = [] \<or>
      (\<exists>bytes cfg d. read_file fs1 (config a) = Inr bytes \<and> tomllib_loads E bytes = Some cfg \<and>
         getitem cfg ''data'' = Inr d \<and>
         (datasets (trace w1) = [(train_data a, d)] \<or>
          datasets (trace w1) = [(train_data a, d), (val_data a, d)]))" by simp
    then show ?thesis
    proof
      assume "datasets (trace w1) = []"
      then show ?thesis by simp
    next
      assume "\<exists>bytes cfg d. read_file fs1 (config a) = Inr bytes \<and> tomllib_loads E bytes = Some cfg \<and>
         getitem cfg ''data'' = Inr d \<and>
         (datasets (trace w1) = [(train_data a, d)] \<or>
          datasets (trace w1) = [(train_data a, d), (val_data a, d)])"
      then obtain bytes cfg d where x: "read_file fs1 (config a) = Inr bytes"
        "tomllib_loads E bytes = Some cfg" "getitem cfg ''data'' = Inr d"
        "datasets (trace w1) = [(train_data a, d)] \<or>
          datasets (trace w1) = [(train_data a, d), (val_data a, d)]" by blast
      from read_file_Inr [OF x(1)] mkdir_file_iff [OF mk]
      have "fs0 (config a) = Some (File bytes)" by simp
      with x(2,3,4) show ?thesis by blast
    qed
  qed
  from assms show ?thesis
  proof (cases rule: main_cases)
    case refused
    then show ?thesis by (simp add: datasets_def)
  next
    case (mkdir_failed e fs1)
    then show ?thesis by (simp add: datasets_def)
  next
    case (configure_failed fs1 e)
    from after_configure [OF configure_failed(2,3)] configure_failed(4) show ?thesis by simp
  next
    case (open_log_failed fs1 ne w1 e)
    from open_log_Inl [OF open_log_failed(4)] have "w = w1" .
    with after_configure [OF open_log_failed(2,3)] open_log_failed(5) show ?thesis by simp
  next
    case (range_failed fs1 ne w1)
    from open_log_Inr [OF range_failed(4)] have "datasets (trace w) = datasets (trace w1)"
      by (simp add: datasets_def map_filter_append List.map_filter_simps)
    with after_configure [OF range_failed(2,3)] range_failed(6) show ?thesis by simp
  next
    case (looped fs1 ne w1 w2 n b)
    from open_log_Inr [OF looped(4)] have "datasets (trace w2) = datasets (trace w1)"
      by (simp add: datasets_def map_filter_append List.map_filter_simps)
    with epoch_loop_datasets [OF looped(6)] have eq: "datasets (trace w) = datasets (trace w1)"
      by simp
    from configure_Inr [OF looped(3)] have "length (datasets (trace w1)) = 2"
      by (auto simp: datasets_def map_filter_append List.map_filter_simps)
    with after_configure [OF looped(2,3)] eq show ?thesis by simp
  qed
qed

theorem paired_datasets_witness:
  "main (demo_env 2 (Finite 3) [Finite 2, Finite 1]) (demo_args False) demo_fs 0 =
     (None, snd (main (demo_env 2 (Finite 3) [Finite 2, Finite 1]) (demo_args False) demo_fs 0)) \<and>
   datasets (trace (snd (main (demo_env 2 (Finite 3) [Finite 2, Finite 1]) (demo_args False) demo_fs 0))) =
     [(''train.parquet'', TTable [(''points'', TInt 8)]), (''val.parquet'', TTable [(''points'', TInt 8)])]"
proof -
  let ?E = "demo_env 2 (Finite 3) [Finite 2, Finite 1]"
  let ?w = "snd (main ?E (demo_args False) demo_fs 0)"
  have run: "main ?E (demo_args False) demo_fs 0 = (None, ?w)"
    using demo_run_A(1) by (simp add: prod_eq_iff)
  from paired_datasets [OF run] have len: "length (datasets (trace ?w)) = 2"
    and "datasets (trace ?w) = [] \<or>
      (\<exists>bytes cfg d. demo_fs (config (demo_args False)) = Some (File bytes) \<and>
         tomllib_loads ?E bytes = Some cfg \<and> getitem cfg ''data'' = Inr d \<and>
         (datasets (trace ?w) = [(train_data (demo_args False), d)] \<or>
          datasets (trace ?w) = [(train_data (demo_args False), d), (val_data (demo_args False), d)]))"
    by simp_all
  with len obtain bytes cfg d where f: "demo_fs (config (demo_args False)) = Some (File bytes)"
    and c: "tomllib_loads ?E bytes = Some cfg" and g: "getitem cfg ''data'' = Inr d"
    and ds: "datasets (trace ?w) = [(train_data (demo_args False), d), (val_data (demo_args False), d)]"
    by auto
  from f have "bytes = ''cfg''" by (simp add: demo_fs_def demo_args_def)
  with c have "cfg = demo_cfg 2" by (simp add: demo_env_def)
  with g have "d = TTable [(''points'', TInt 8)]" by (simp add: demo_cfg_def getitem_def)
  with ds have "datasets (trace ?w) =
     [(''train.parquet'', TTable [(''points'', TInt 8)]), (''val.parquet'', TTable [(''points'', TInt 8)])]"
    by (simp add: demo_args_def)
  with run show ?thesis by simp
qed

subsection \<open>What a run leaves alone\<close>

lemma open_write_keeps: "open_write k F p b = Inr F' \<Longrightarrow> F q \<noteq> None \<Longrightarrow> F' q \<noteq> None"
  by (auto simp: open_write_def split: if_splits)

lemma open_write_keeps_Some:
  "open_write k F p b = Inr F' \<Longrightarrow> F q = Some y \<Longrightarrow> \<exists>y'. F' q = Some y'"
  using open_write_keeps [of k F p b F' q] by auto

lemma epoch_keeps: "epoch E out i b w = (r, b', w') \<Longrightarrow> fs w q \<noteq> None \<Longrightarrow> fs w' q \<noteq> None"
  by (auto simp: epoch_def Let_def split: sum.splits prod.splits if_splits;
      meson open_write_keeps_Some)

lemma epoch_loop_keeps:
  "epoch_loop E out is b w = (r, b', w') \<Longrightarrow> fs w q \<noteq> None \<Longrightarrow> fs w' q \<noteq> None"
proof (induction "is" arbitrary: b w)
  case Nil
  then show ?case by simp
next
  case (Cons i rest)
  obtain r1 b1 w1 where e: "epoch E out i b w = (r1, b1, w1)" by (cases "epoch E out i b w")
  note k = epoch_keeps [OF e Cons.prems(2)]
  show ?case
  proof (cases r1)
    case None
    with Cons.prems(1) e have "epoch_loop E out rest b1 w1 = (r, b', w')" by simp
    from Cons.IH [OF this k] show ?thesis .
  next
    case (Some x)
    with Cons.prems(1) e k show ?thesis by simp
  qed
qed

text \<open>
  Claim C8. With \<^verbatim>\<open>--force\<close> on an existing output directory, whatever way the run ends,
  every path other than \<^verbatim>\<open>config.toml\<close>, \<^verbatim>\<open>training_log.csv\<close> and \<^verbatim>\<open>model.pt\<close> in that
  directory holds after the run what it held before, and no path that existed before
  has been removed.
\<close>

theorem force_keeps_other_files:
  assumes "main E a fs0 s0 = (r, w)" and "force a" and "is_dir fs0 (out_dir E a)"
  shows "(\<forall>p. p \<notin> {out_dir E a @ [''config.toml''], out_dir E a @ [''training_log.csv''],
                  out_dir E a @ [''model.pt'']} \<longrightarrow> fs w p = fs0 p) \<and>
         (\<forall>p. fs0 p \<noteq> None \<longrightarrow> fs w p \<noteq> None)"
proof -
  have mk: "mkdir (os_fault E) fs0 (out_dir E a) = (None, fs0)" using assms(3) by (rule mkdir_is_dir)
  from assms(1) show ?thesis
  proof (cases rule: main_any)
    case refused
    with assms(2) show ?thesis by simp
  next
    case (mkdir_failed e fs1)
    with mk show ?thesis by simp
  next
    case (made fs1)
    with mk show ?thesis by simp
  next
    case (copied fs1 bytes cfg cs)
    with mk show ?thesis by simp
  next
    case (range_failed fs1 bytes cfg cs ne)
    with mk show ?thesis by simp
  next
    case (looped fs1 bytes cfg cs ne n w2 b)
    from looped(2) mk have fs1: "fs1 = fs0" by simp
    have "fs w p = fs0 p"
      if "p \<notin> {out_dir E a @ [''config.toml''], out_dir E a @ [''training_log.csv''],
                  out_dir E a @ [''model.pt'']}" for p
    proof -
      from that have "fs w p = fs w2 p" using epoch_loop_frame [OF looped(9), of p] by simp
      with that looped(7) fs1 show ?thesis by simp
    qed
    moreover have "fs w p \<noteq> None" if "fs0 p \<noteq> None" for p
    proof -
      from that looped(7) fs1 have "fs w2 p \<noteq> None" by simp
      then show ?thesis by (rule epoch_loop_keeps [OF looped(9)])
    qed
    ultimately show ?thesis by blast
  qed
qed

lemma demo_run_forced:
  "fst (main (demo_env 2 (Finite 3) [Finite 2, Finite 1]) (demo_args True) demo_fs_dir 0) = None"
  by code_simp

theorem force_keeps_other_files_witness:
  "main (demo_env 2 (Finite 3) [Finite 2, Finite 1]) (demo_args True) demo_fs_dir 0 =
     (None, snd (main (demo_env 2 (Finite 3) [Finite 2, Finite 1]) (demo_args True) demo_fs_dir 0)) \<and>
   force (demo_args True) \<and>
   is_dir demo_fs_dir (out_dir (demo_env 2 (Finite 3) [Finite 2, Finite 1]) (demo_args True)) \<and>
   fs (snd (main (demo_env 2 (Finite 3) [Finite 2, Finite 1]) (demo_args True) demo_fs_dir 0))
      [''out'', ''notes.txt''] = Some (File ''keep'')"
proof -
  let ?E = "demo_env 2 (Finite 3) [Finite 2, Finite 1]"
  let ?w = "snd (main ?E (demo_args True) demo_fs_dir 0)"
  have run: "main ?E (demo_args True) demo_fs_dir 0 = (None, ?w)"
    using demo_run_forced by (simp add: prod_eq_iff)
  have f: "force (demo_args True)" by (simp add: demo_args_def)
  have d: "is_dir demo_fs_dir (out_dir ?E (demo_args True))"
    by (simp add: is_dir_def demo_fs_dir_def out_dir_def demo_args_def)
  have o: "out_dir ?E (demo_args True) = [''out'']" by (simp add: out_dir_def demo_args_def)
  from force_keeps_other_files [OF run f d]
  have "[''out'', ''notes.txt''] \<notin> {out_dir ?E (demo_args True) @ [''config.toml''],
      out_dir ?E (demo_args True) @ [''training_log.csv''], out_dir ?E (demo_args True) @ [''model.pt'']}
    \<longrightarrow> fs ?w [''out'', ''notes.txt''] = demo_fs_dir [''out'', ''notes.txt'']" by blast
  then have "fs ?w [''out'', ''notes.txt''] = Some (File ''keep'')"
    unfolding o by (simp add: demo_fs_dir_def)
  with run f d show ?thesis by simp
qed

subsection \<open>No epoch at all\<close>

lemma setup_prefix_checkpoints:
  "checkpoints (MkdirDone p # CopyDone q q' # map Called cs) = []"
  using called_projections [of cs] by (simp add: proj_defs List.map_filter_simps)

text \<open>
  Claim C9. When the configuration file gives \<^verbatim>\<open>num_epochs = 0\<close>, no run, whatever way it
  ends, calls \<^verbatim>\<open>train_one_epoch\<close> or \<^verbatim>\<open>test_one_epoch\<close>, saves a checkpoint or changes what
  is at \<^verbatim>\<open>model.pt\<close>; and a run that ends without an exception leaves a log that holds the
  header row and nothing else.
\<close>

theorem zero_epochs:
  assumes "main E a fs0 s0 = (r, w)" and "fs0 (config a) = Some (File bytes)"
    and "tomllib_loads E bytes = Some cfg"
    and "getitem2 cfg ''training'' ''num_epochs'' = Inr (TInt 0)"
  shows "passes (trace w) = [] \<and> checkpoints (trace w) = [] \<and>
    fs w (out_dir E a @ [''model.pt'']) = fs0 (out_dir E a @ [''model.pt'']) \<and>
    (r = None \<longrightarrow> rows_written (trace w) = [] \<and>
       fs w (out_dir E a @ [''training_log.csv'']) = Some (File (writerow E header)))"
proof -
  have m: "fs1 (out_dir E a @ [''model.pt'']) = fs0 (out_dir E a @ [''model.pt''])"
    if "mkdir (os_fault E) fs0 (out_dir E a) = (rm, fs1)" for rm fs1
    using mkdir_other [OF that, of "out_dir E a @ [''model.pt'']"] child_not_ancestor by simp
  from assms(1) show ?thesis
  proof (cases rule: main_any)
    case refused
    then show ?thesis by (simp add: proj_defs)
  next
    case (mkdir_failed e fs1)
    with m [OF mkdir_failed(2)] show ?thesis by (simp add: proj_defs)
  next
    case (made fs1)
    with m [OF made(2)] show ?thesis by (auto simp: proj_defs List.map_filter_simps)
  next
    case (copied fs1 bytes' cfg' cs)
    from copied(6) have "passes (trace w) = []" "checkpoints (trace w) = []"
      by (simp_all add: setup_prefix_projections setup_prefix_checkpoints)
    with m [OF copied(2)] copied(5,7) show ?thesis by auto
  next
    case (range_failed fs1 bytes' cfg' cs ne)
    note p = setup_projections [OF range_failed(8)]
    from m [OF range_failed(2)] range_failed(7,9) p show ?thesis by simp
  next
    case (looped fs1 bytes' cfg' cs ne n w2 b)
    note p = setup_projections [OF looped(8)]
    from looped(3) assms(2) have "bytes' = bytes" by simp
    with looped(4) assms(3) have "cfg' = cfg" by simp
    with looped(5) assms(4) have "ne = TInt 0" by simp
    with looped(6) have "n = 0" by (simp add: int_value_def)
    with looped(9) have "r = None" "w = w2" by simp_all
    with m [OF looped(2)] looped(7) p show ?thesis by simp
  qed
qed

lemma demo_run_zero:
  "fst (main (demo_env 0 (Finite 3) []) (demo_args False) demo_fs 0) = None"
  by code_simp

theorem zero_epochs_witness:
  "main (demo_env 0 (Finite 3) []) (demo_args False) demo_fs 0 =
     (None, snd (main (demo_env 0 (Finite 3) []) (demo_args False) demo_fs 0)) \<and>
   demo_fs (config (demo_args False)) = Some (File ''cfg'') \<and>
   tomllib_loads (demo_env 0 (Finite 3) []) ''cfg'' = Some (demo_cfg 0) \<and>
   getitem2 (demo_cfg 0) ''training'' ''num_epochs'' = Inr (TInt 0) \<and>
   passes (trace (snd (main (demo_env 0 (Finite 3) []) (demo_args False) demo_fs 0))) = [] \<and>
   checkpoints (trace (snd (main (demo_env 0 (Finite 3) []) (demo_args False) demo_fs 0))) = [] \<and>
   fs (snd (main (demo_env 0 (Finite 3) []) (demo_args False) demo_fs 0)) [''out'', ''model.pt''] = None \<and>
   fs (snd (main (demo_env 0 (Finite 3) []) (demo_args False) demo_fs 0)) [''out'', ''training_log.csv'']
     = Some (File '',,,|'')"
proof -
  let ?E = "demo_env 0 (Finite 3) []"
  let ?w = "snd (main ?E (demo_args False) demo_fs 0)"
  have run: "main ?E (demo_args False) demo_fs 0 = (None, ?w)"
    using demo_run_zero by (simp add: prod_eq_iff)
  have f: "demo_fs (config (demo_args False)) = Some (File ''cfg'')"
    by (simp add: demo_fs_def demo_args_def)
  have c: "tomllib_loads ?E ''cfg'' = Some (demo_cfg 0)" by (simp add: demo_env_def)
  have g: "getitem2 (demo_cfg 0) ''training'' ''num_epochs'' = Inr (TInt 0)"
    by (simp add: demo_cfg_def getitem2_def getitem_def)
  have o: "out_dir ?E (demo_args False) = [''out'']" by (simp add: out_dir_def demo_args_def)
  note t = zero_epochs [OF run f c g, unfolded o]
  from t have 1: "passes (trace ?w) = []" and 2: "checkpoints (trace ?w) = []" by simp_all
  from t have 3: "fs ?w [''out'', ''model.pt''] = None" by (simp add: demo_fs_def)
  from t have 4: "fs ?w [''out'', ''training_log.csv''] = Some (File '',,,|'')"
    by (simp add: demo_env_def header_def)
  from run f c g 1 2 3 4 show ?thesis by simp
qed

subsection \<open>The copy of the configuration\<close>

text \<open>
  Claim C10. Whatever way a run ends, either it has recorded nothing but the creation
  of the output directory, or the configuration file was read and parsed, its bytes
  were copied to \<^verbatim>\<open>config.toml\<close> in the output directory before anything else was
  recorded (in particular before any component was constructed and any epoch ran), and
  \<^verbatim>\<open>config.toml\<close> still holds exactly these bytes when the run ends.
\<close>

theorem config_copied_first:
  assumes "main E a fs0 s0 = (r, w)"
  shows "trace w = [] \<or> trace w = [MkdirDone (out_dir E a)] \<or>
    (\<exists>bytes cfg rest. fs0 (config a) = Some (File bytes) \<and> tomllib_loads E bytes = Some cfg \<and>
       trace w = MkdirDone (out_dir E a) # CopyDone (config a) (out_dir E a @ [''config.toml'']) # rest \<and>
       fs w (out_dir E a @ [''config.toml'']) = Some (File bytes))"
  using assms
proof (cases rule: main_any)
  case refused
  then show ?thesis by simp
next
  case (mkdir_failed e fs1)
  then show ?thesis by simp
next
  case (made fs1)
  then show ?thesis by simp
next
  case (copied fs1 bytes cfg cs)
  from copied(5) have "fs w (out_dir E a @ [''config.toml'']) = Some (File bytes)" by simp
  with copied(3,4,6) show ?thesis by blast
next
  case (range_failed fs1 bytes cfg cs ne)
  from range_failed(7) have "fs w (out_dir E a @ [''config.toml'']) = Some (File bytes)" by simp
  with range_failed(3,4,8) show ?thesis by blast
next
  case (looped fs1 bytes cfg cs ne n w2 b)
  from epoch_loop_trace_ext [OF looped(9)] obtain tr where "trace w = trace w2 @ tr" by blast
  with looped(8) have t: "trace w = MkdirDone (out_dir E a) #
     CopyDone (config a) (out_dir E a @ [''config.toml'']) #
     (map Called cs @ [HeaderWritten (out_dir E a @ [''training_log.csv''])] @ tr)" by simp
  have "fs w (out_dir E a @ [''config.toml'']) = fs w2 (out_dir E a @ [''config.toml''])"
    using epoch_loop_frame [OF looped(9), of "out_dir E a @ [''config.toml'']"] by simp
  with looped(7) have "fs w (out_dir E a @ [''config.toml'']) = Some (File bytes)" by simp
  with looped(3,4) t show ?thesis by blast
qed

lemma demo_run_A_trace:
  "length (trace (snd (main (demo_env 2 (Finite 3) [Finite 2, Finite 1]) (demo_args False) demo_fs 0))) = 19"
  by code_simp

theorem config_copied_first_witness:
  "main (demo_env 2 (Finite 3) [Finite 2, Finite 1]) (demo_args False) demo_fs 0 =
     (None, snd (main (demo_env 2 (Finite 3) [Finite 2, Finite 1]) (demo_args False) demo_fs 0)) \<and>
   fs (snd (main (demo_env 2 (Finite 3) [Finite 2, Finite 1]) (demo_args False) demo_fs 0))
      [''out'', ''config.toml''] = Some (File ''cfg'')"
proof -
  let ?E = "demo_env 2 (Finite 3) [Finite 2, Finite 1]"
  let ?w = "snd (main ?E (demo_args False) demo_fs 0)"
  have run: "main ?E (demo_args False) demo_fs 0 = (None, ?w)"
    using demo_run_A(1) by (simp add: prod_eq_iff)
  have o: "out_dir ?E (demo_args False) = [''out'']" by (simp add: out_dir_def demo_args_def)
  from config_copied_first [OF run] demo_run_A_trace
  obtain bytes where "demo_fs (config (demo_args False)) = Some (File bytes)"
    and "fs ?w (out_dir ?E (demo_args False) @ [''config.toml'']) = Some (File bytes)"
    by auto
  then have "fs ?w [''out'', ''config.toml''] = Some (File ''cfg'')"
    unfolding o by (simp add: demo_fs_def demo_args_def)
  with run show ?thesis by simp
qed

end
